theory Spec2Isabelle
  imports Complex_Main "HOL-Library.Word" "HOL-Library.Char_ord" "HOL-Library.List_Lexorder"
    "HOL-Library.Log_Nat"
begin

chapter \<open>Apache Doris: storage engine sweepers, tablet placement and the
  per-database transaction manager\<close>

text \<open>
  A shallow embedding of the parts of \<^verbatim>\<open>storage_engine.cpp\<close> (backend, C++) and of
  \<^verbatim>\<open>DatabaseTransactionMgr\<close> (frontend, Java) that the specification's claims
  are about. All definitions come first; the theorems follow in the second half.

  Conventions. Java \<^verbatim>\<open>long\<close> identifiers, versions and millisecond clocks are
  \<open>int\<close>: no claim depends on 64-bit overflow. The C++ \<^verbatim>\<open>int\<close> disk index
  is a \<open>32 word\<close>, because the code itself guards the increment with
  \<^verbatim>\<open>std::max(0, ...)\<close>. Hash maps and hash sets whose iteration order the code
  observes are association lists and duplicate-free lists in iteration order. Exceptions are
  values of a sum type (\<open>Inl\<close> the exception).
\<close>

section \<open>Tablet placement: the next disk index (storage\_engine.cpp)\<close>

datatype TStorageMedium = HDD | SSD | S3 | REMOTE_CACHE

text \<open>
  Modelled from the spec: \<^verbatim>\<open>CreateTabletIdxCache::get_key\<close> and the LRU cache
  class behind \<^verbatim>\<open>cache()\<close> are declared outside the given sources. The spec
  calls the cache a bounded LRU keyed by \<open>(partition_id, medium)\<close>: the key is that pair,
  the cache a list of entries, most recently used first, cut to its capacity on insert.
\<close>

type_synonym cache_key = "int \<times> TStorageMedium"

definition get_key :: "int \<Rightarrow> TStorageMedium \<Rightarrow> cache_key" where
  "get_key partition_id storage_medium = (partition_id, storage_medium)"

record CreateTabletIdxCache =
  lru_entries :: "(cache_key \<times> 32 word) list"
  lru_capacity :: nat

definition lru_lookup :: "CreateTabletIdxCache \<Rightarrow> cache_key \<Rightarrow> 32 word option" where
  "lru_lookup c k = map_of (lru_entries c) k"

definition lru_touch ::
  "CreateTabletIdxCache \<Rightarrow> cache_key \<Rightarrow> 32 word \<Rightarrow> CreateTabletIdxCache" where
  "lru_touch c k v = c\<lparr>lru_entries := (k, v) # filter (\<lambda>e. fst e \<noteq> k) (lru_entries c)\<rparr>"

definition lru_insert ::
  "CreateTabletIdxCache \<Rightarrow> cache_key \<Rightarrow> 32 word \<Rightarrow> CreateTabletIdxCache" where
  "lru_insert c k v =
     c\<lparr>lru_entries :=
         take (lru_capacity c) ((k, v) # filter (\<lambda>e. fst e \<noteq> k) (lru_entries c))\<rparr>"

text \<open>\<^verbatim>\<open>CreateTabletIdxCache::get_index\<close>: the stored index on a hit, \<open>-1\<close> on a miss.\<close>

definition get_index ::
  "CreateTabletIdxCache \<Rightarrow> cache_key \<Rightarrow> 32 word \<times> CreateTabletIdxCache" where
  "get_index c k =
     (case lru_lookup c k of
        Some idx \<Rightarrow> (idx, lru_touch c k idx)
      | None \<Rightarrow> (- 1, c))"

text \<open>\<^verbatim>\<open>CreateTabletIdxCache::set_index\<close>; its \<^verbatim>\<open>assert(next_idx >= 0)\<close>
  is the \<open>None\<close> result.\<close>

definition set_index ::
  "CreateTabletIdxCache \<Rightarrow> cache_key \<Rightarrow> 32 word \<Rightarrow> CreateTabletIdxCache option" where
  "set_index c k next_idx =
     (if next_idx <s 0 then None else Some (lru_insert c k next_idx))"

text \<open>\<^verbatim>\<open>std::max\<close> on a signed 32-bit \<^verbatim>\<open>int\<close>.\<close>

definition std_max :: "32 word \<Rightarrow> 32 word \<Rightarrow> 32 word" where
  "std_max a b = (if a <s b then b else a)"

text \<open>The two structures the index step reads and writes. \<^verbatim>\<open>_last_use_index\<close> is
  a \<^verbatim>\<open>std::map\<close> read with \<^verbatim>\<open>operator[]\<close>, which gives 0 for a medium not
  yet present: a total function.\<close>

record PlacementState =
  create_tablet_idx_lru_cache :: CreateTabletIdxCache
  last_use_index :: "TStorageMedium \<Rightarrow> 32 word"

text \<open>\<^verbatim>\<open>StorageEngine::_get_and_set_next_disk_index\<close>.\<close>

definition get_and_set_next_disk_index ::
  "PlacementState \<Rightarrow> int \<Rightarrow> TStorageMedium \<Rightarrow> (32 word \<times> PlacementState) option" where
  "get_and_set_next_disk_index s partition_id storage_medium =
     (let key = get_key partition_id storage_medium;
          (found, cache1) = get_index (create_tablet_idx_lru_cache s) key;
          curr_index =
            (if found = - 1 then std_max 0 (last_use_index s storage_medium + 1) else found);
          last' = (last_use_index s)(storage_medium := curr_index)
      in case set_index cache1 key (std_max 0 (curr_index + 1)) of
           None \<Rightarrow> None
         | Some cache2 \<Rightarrow>
             Some (curr_index,
                   s\<lparr>create_tablet_idx_lru_cache := cache2, last_use_index := last'\<rparr>))"

text \<open>A fresh engine: an empty cache of capacity 4 and no medium used yet.\<close>

definition placement0 :: PlacementState where
  "placement0 =
     \<lparr>create_tablet_idx_lru_cache = \<lparr>lru_entries = [], lru_capacity = 4\<rparr>,
      last_use_index = (\<lambda>_. 0)\<rparr>"

section \<open>Unused-rowset garbage collection (storage\_engine.cpp)\<close>

text \<open>
  A \<^verbatim>\<open>RowsetSharedPtr\<close> is a counted reference to a \<^verbatim>\<open>Rowset\<close> object. The objects
  live in a store keyed by address; the two registries map a rowset id to an address;
  \<open>other_refs\<close> counts the references that the rest of the engine holds (tablets, readers,
  compactions). The class \<^verbatim>\<open>Rowset\<close> is declared outside the given sources: the record
  has what the sweeper reads of it. \<open>files_removed\<close> collects the objects on which
  \<^verbatim>\<open>remove()\<close> was called, \<open>delete_bitmap\<close> the (tablet, rowset) slices of the delete
  bitmaps of the merge-on-write tablets \<open>merge_on_write_tablets\<close>.
\<close>

type_synonym RowsetId = nat
type_synonym addr = nat

record Rowset =
  rowset_id :: RowsetId
  rowset_tablet_id :: int
  need_delete_file :: bool
  delayed_expired_timestamp :: nat
  is_local :: bool

record GcState =
  rowset_objects :: "addr \<Rightarrow> Rowset option"
  unused_rowsets :: "(RowsetId \<times> addr) list"
  querying_rowsets :: "(RowsetId \<times> addr) list"
  other_refs :: "addr \<Rightarrow> nat"
  files_removed :: "addr list"
  merge_on_write_tablets :: "int set"
  delete_bitmap :: "(int \<times> RowsetId) set"

text \<open>\<^verbatim>\<open>use_count()\<close> of the object at an address: the references of the two registries,
  of the sweeper's own vector \<open>copy\<close>, and of everyone else.\<close>

definition use_count :: "GcState \<Rightarrow> addr list \<Rightarrow> addr \<Rightarrow> nat" where
  "use_count s copy a =
     length (filter (\<lambda>e. snd e = a) (unused_rowsets s))
     + length (filter (\<lambda>e. snd e = a) (querying_rowsets s))
     + length (filter (\<lambda>x. x = a) copy)
     + other_refs s a"

text \<open>\<^verbatim>\<open>add_quering_rowset\<close> (\<^verbatim>\<open>emplace\<close> keeps an entry already there) and
  \<^verbatim>\<open>evict_querying_rowset\<close>.\<close>

definition add_quering_rowset :: "GcState \<Rightarrow> addr \<Rightarrow> GcState" where
  "add_quering_rowset s a =
     (case rowset_objects s a of
        None \<Rightarrow> s
      | Some rs \<Rightarrow>
          if rowset_id rs \<in> fst ` set (querying_rowsets s) then s
          else s\<lparr>querying_rowsets := querying_rowsets s @ [(rowset_id rs, a)]\<rparr>)"

definition evict_querying_rowset :: "GcState \<Rightarrow> RowsetId \<Rightarrow> GcState" where
  "evict_querying_rowset s rs_id =
     s\<lparr>querying_rowsets := filter (\<lambda>e. fst e \<noteq> rs_id) (querying_rowsets s)\<rparr>"

text \<open>\<^verbatim>\<open>add_unused_rowset\<close>: the caller's reference moves into the registry.\<close>

definition add_unused_rowset :: "GcState \<Rightarrow> addr \<Rightarrow> GcState" where
  "add_unused_rowset s a =
     (case rowset_objects s a of
        None \<Rightarrow> s
      | Some rs \<Rightarrow>
          if rowset_id rs \<in> fst ` set (unused_rowsets s) then s
          else s\<lparr>rowset_objects := (rowset_objects s)(a \<mapsto> rs\<lparr>need_delete_file := True\<rparr>),
                 unused_rowsets := unused_rowsets s @ [(rowset_id rs, a)]\<rparr>)"

text \<open>The condition of the sweeper on one registry entry; \<open>now\<close> is what
  \<^verbatim>\<open>UnixSeconds()\<close> returns when the entry is visited.\<close>

definition gc_selected :: "nat \<Rightarrow> GcState \<Rightarrow> addr list \<Rightarrow> addr \<Rightarrow> bool" where
  "gc_selected now s copy a =
     (case rowset_objects s a of
        None \<Rightarrow> False
      | Some rs \<Rightarrow>
          use_count s copy a = 1 \<and> need_delete_file rs \<and> now > delayed_expired_timestamp rs)"

text \<open>The first loop of \<^verbatim>\<open>start_delete_unused_rowset\<close>, under the registry's mutex: the
  entries in iteration order; a selected entry is erased from the registry (the map has
  one entry per key), its id is evicted from the querying registry, and a local rowset goes
  to \<^verbatim>\<open>unused_rowsets_copy\<close>. \<open>now_at k\<close> is the clock when the entry of key \<open>k\<close> is
  visited.\<close>

fun gc_loop ::
  "(RowsetId \<Rightarrow> nat) \<Rightarrow> GcState \<Rightarrow> addr list \<Rightarrow> (RowsetId \<times> addr) list \<Rightarrow> GcState \<times> addr list" where
  "gc_loop now_at s copy [] = (s, copy)"
| "gc_loop now_at s copy ((k, a) # rest) =
     (if gc_selected (now_at k) s copy a then
        (case rowset_objects s a of
           None \<Rightarrow> gc_loop now_at s copy rest
         | Some rs \<Rightarrow>
             (let s1 = evict_querying_rowset s (rowset_id rs);
                  s2 = s1\<lparr>unused_rowsets := filter (\<lambda>e. fst e \<noteq> k) (unused_rowsets s1)\<rparr>
              in gc_loop now_at s2 (if is_local rs then copy @ [a] else copy) rest))
      else gc_loop now_at s copy rest)"

text \<open>The second loop, outside the mutex: the delete bitmap slice of a merge-on-write tablet
  is dropped and \<^verbatim>\<open>remove()\<close> deletes the files.\<close>

definition remove_rowset :: "GcState \<Rightarrow> addr \<Rightarrow> GcState" where
  "remove_rowset s a =
     (case rowset_objects s a of
        None \<Rightarrow> s
      | Some rs \<Rightarrow>
          s\<lparr>delete_bitmap :=
               (if rowset_tablet_id rs \<in> merge_on_write_tablets s
                then delete_bitmap s - {(rowset_tablet_id rs, rowset_id rs)}
                else delete_bitmap s),
            files_removed := files_removed s @ [a]\<rparr>)"

definition start_delete_unused_rowset :: "(RowsetId \<Rightarrow> nat) \<Rightarrow> GcState \<Rightarrow> GcState" where
  "start_delete_unused_rowset now_at s =
     (case gc_loop now_at s [] (unused_rowsets s) of
        (s1, unused_rowsets_copy) \<Rightarrow> foldl remove_rowset s1 unused_rowsets_copy)"

text \<open>What the registries are by construction: a map has one entry per key, every entry
  refers to an object, and both registries file an object under its own rowset id.\<close>

definition registries_wf :: "GcState \<Rightarrow> bool" where
  "registries_wf s =
     (distinct (map fst (unused_rowsets s))
      \<and> list_all (\<lambda>(k, a). map_option rowset_id (rowset_objects s a) = Some k) (unused_rowsets s)
      \<and> list_all (\<lambda>(k, a). map_option rowset_id (rowset_objects s a) = Some k)
           (querying_rowsets s))"

text \<open>Rowsets 1 and 2 are unused, local and expired at time 100; rowset 2 is also in the
  querying registry.\<close>

definition gc0 :: GcState where
  "gc0 =
     \<lparr>rowset_objects =
        (\<lambda>_. None)
          (10 := Some \<lparr>rowset_id = 1, rowset_tablet_id = 5, need_delete_file = True,
                       delayed_expired_timestamp = 50, is_local = True\<rparr>,
           20 := Some \<lparr>rowset_id = 2, rowset_tablet_id = 5, need_delete_file = True,
                       delayed_expired_timestamp = 50, is_local = True\<rparr>),
      unused_rowsets = [(1, 10), (2, 20)],
      querying_rowsets = [(2, 20)],
      other_refs = (\<lambda>_. 0),
      files_removed = [],
      merge_on_write_tablets = {5},
      delete_bitmap = {(5, 1), (5, 2)}\<rparr>"

text \<open>The claim's words: an entry is eligible at time \<open>now\<close> when no reference to its rowset
  is held beyond the registry's own, the rowset is flagged \<open>need_delete_file\<close> and its
  \<open>delayed_expired_timestamp\<close> is strictly in the past.\<close>

definition spec_gc_eligible :: "nat \<Rightarrow> GcState \<Rightarrow> addr \<Rightarrow> bool" where
  "spec_gc_eligible now s a =
     (\<exists>rs. rowset_objects s a = Some rs \<and> use_count s [] a = 1 \<and> need_delete_file rs
           \<and> delayed_expired_timestamp rs < now)"

definition spec_is_local :: "GcState \<Rightarrow> addr \<Rightarrow> bool" where
  "spec_is_local s a = (\<exists>rs. rowset_objects s a = Some rs \<and> is_local rs)"

section \<open>Trash and snapshot sweeping (storage\_engine.cpp)\<close>

text \<open>
  A directory entry is its file name. \<^verbatim>\<open>strptime\<close> and \<^verbatim>\<open>mktime\<close> are the C
  library's. \<open>strptime\<close> below is glibc's for the format \<^verbatim>\<open>\%Y\%m\%d\%H\%M\%S\<close>, the
  only one the sweep uses: each field is read by the macro \<^verbatim>\<open>get_number(from, to, n)\<close>,
  which skips white space, wants a digit, and then takes digits while fewer than \<open>n\<close>
  are read and ten times the value read so far does not exceed \<open>to\<close>; the field fails
  when its value is outside \<open>from..to\<close>. What follows the six fields is not looked at.
  \<open>None\<close> is \<^verbatim>\<open>nullptr\<close>.
\<close>

definition is_digit :: "char \<Rightarrow> bool" where
  "is_digit c = (48 \<le> (of_char c :: nat) \<and> (of_char c :: nat) \<le> 57)"

definition digit_val :: "char \<Rightarrow> int" where
  "digit_val c = int (of_char c :: nat) - 48"

definition is_space :: "char \<Rightarrow> bool" where
  "is_space c = ((of_char c :: nat) = 32 \<or> (9 \<le> (of_char c :: nat) \<and> (of_char c :: nat) \<le> 13))"

text \<open>The loop of \<^verbatim>\<open>get_number\<close> after its first digit: \<open>n\<close> is the number of
  digits that may still be read.\<close>

fun get_more :: "nat \<Rightarrow> int \<Rightarrow> int \<Rightarrow> string \<Rightarrow> int \<times> string" where
  "get_more 0 to val s = (val, s)"
| "get_more (Suc n) to val [] = (val, [])"
| "get_more (Suc n) to val (c # s) =
     (if val * 10 \<le> to \<and> is_digit c then get_more n to (val * 10 + digit_val c) s
      else (val, c # s))"

definition get_number :: "int \<Rightarrow> int \<Rightarrow> nat \<Rightarrow> string \<Rightarrow> (int \<times> string) option" where
  "get_number from to n s =
     (case dropWhile is_space s of
        [] \<Rightarrow> None
      | c # rest \<Rightarrow>
          if \<not> is_digit c then None
          else (case get_more (n - 1) to (digit_val c) rest of
                  (val, rp) \<Rightarrow> if val < from \<or> to < val then None else Some (val, rp)))"

text \<open>The fields of \<^verbatim>\<open>struct tm\<close> that \<^verbatim>\<open>mktime\<close> reads; \<open>tm_isdst\<close> is 0 in every
  call of the sweep.\<close>

record tm =
  tm_sec :: int
  tm_min :: int
  tm_hour :: int
  tm_mday :: int
  tm_mon :: int
  tm_year :: int

definition strptime :: "string \<Rightarrow> tm option" where
  "strptime str_time =
     (case get_number 0 9999 4 str_time of
        None \<Rightarrow> None
      | Some (y, s1) \<Rightarrow>
     (case get_number 1 12 2 s1 of
        None \<Rightarrow> None
      | Some (mo, s2) \<Rightarrow>
     (case get_number 1 31 2 s2 of
        None \<Rightarrow> None
      | Some (d, s3) \<Rightarrow>
     (case get_number 0 23 2 s3 of
        None \<Rightarrow> None
      | Some (h, s4) \<Rightarrow>
     (case get_number 0 59 2 s4 of
        None \<Rightarrow> None
      | Some (mi, s5) \<Rightarrow>
     (case get_number 0 61 2 s5 of
        None \<Rightarrow> None
      | Some (sec, s6) \<Rightarrow>
          Some \<lparr>tm_sec = sec, tm_min = mi, tm_hour = h, tm_mday = d, tm_mon = mo - 1,
                tm_year = y - 1900\<rparr>))))))"

text \<open>\<^verbatim>\<open>mktime\<close> depends on the time zone of the process and is an argument of the sweep:
  \<open>mktime t\<close> is what the library returns for the fields \<open>t\<close> with \<open>tm_isdst = 0\<close>.
  The creation time of an entry is \<open>mktime\<close> of what \<open>strptime\<close> reads from the time
  part of its name.\<close>

definition create_time :: "(tm \<Rightarrow> int) \<Rightarrow> string \<Rightarrow> int option" where
  "create_time mktime str_time = map_option mktime (strptime str_time)"

text \<open>\<^verbatim>\<open>mktime\<close> when the time zone is UTC: the seconds from 1970-01-01 00:00:00 to the
  date and time of the fields in the proleptic Gregorian calendar, a day of the month
  beyond the month's end or a second beyond 59 counting on into what follows.\<close>

definition days_from_civil :: "int \<Rightarrow> int \<Rightarrow> int \<Rightarrow> int" where
  "days_from_civil y m d =
     (let y' = (if m \<le> 2 then y - 1 else y);
          era = y' div 400;
          yoe = y' - era * 400;
          doy = (153 * (if m > 2 then m - 3 else m + 9) + 2) div 5 + d - 1;
          doe = yoe * 365 + yoe div 4 - yoe div 100 + doy
      in era * 146097 + doe - 719468)"

definition mktime_utc :: "tm \<Rightarrow> int" where
  "mktime_utc t =
     days_from_civil (tm_year t + 1900) (tm_mon t + 1) (tm_mday t) * 86400
     + tm_hour t * 3600 + tm_min t * 60 + tm_sec t"

text \<open>\<^verbatim>\<open>std::string::find(c, pos)\<close>: the first position at or after \<open>pos\<close> that holds
  \<open>c\<close>; \<open>None\<close> is \<^verbatim>\<open>npos\<close>.\<close>

fun find_from :: "char \<Rightarrow> nat \<Rightarrow> nat \<Rightarrow> string \<Rightarrow> nat option" where
  "find_from c pos i [] = None"
| "find_from c pos i (x # xs) =
     (if pos \<le> i \<and> x = c then Some i else find_from c pos (Suc i) xs)"

definition string_find :: "string \<Rightarrow> char \<Rightarrow> nat \<Rightarrow> nat option" where
  "string_find s c pos = find_from c pos 0 s"

text \<open>\<^verbatim>\<open>std::stoi\<close>: white space, a sign, then decimal digits; \<open>None\<close> when it throws
  (no digit, or a value outside \<^verbatim>\<open>int\<close>).\<close>

definition stoi_digits :: "string \<Rightarrow> int option" where
  "stoi_digits s =
     (let ds = takeWhile is_digit s
      in if ds = [] then None else Some (foldl (\<lambda>acc c. acc * 10 + digit_val c) 0 ds))"

definition stoi :: "string \<Rightarrow> int option" where
  "stoi s =
     (let s1 = dropWhile is_space s;
          (neg, s2) = (case s1 of
                         c # cs \<Rightarrow> if c = CHR ''-'' then (True, cs)
                                   else if c = CHR ''+'' then (False, cs) else (False, s1)
                       | [] \<Rightarrow> (False, s1))
      in case stoi_digits s2 of
           None \<Rightarrow> None
         | Some v \<Rightarrow>
             (let r = (if neg then - v else v)
              in if - 2147483648 \<le> r \<and> r \<le> 2147483647 then Some r else None))"

datatype Status = OK | OS_ERROR | IO_ERROR | DELETE_ERROR

text \<open>The time part of a name and the expiry that applies to it: the number after the second
  dot when there is one, else \<open>expire\<close>. The outer \<open>None\<close> is an exception of
  \<^verbatim>\<open>std::stoi\<close>.\<close>

definition str_time_of :: "string \<Rightarrow> string" where
  "str_time_of dir_name =
     (case string_find dir_name CHR ''.'' 0 of
        None \<Rightarrow> dir_name
      | Some n \<Rightarrow> take n dir_name)"

definition actual_expire_of :: "string \<Rightarrow> int \<Rightarrow> int option" where
  "actual_expire_of dir_name expire =
     (case string_find dir_name CHR ''.'' (length (str_time_of dir_name) + 1) of
        None \<Rightarrow> Some expire
      | Some pos \<Rightarrow> stoi (drop (pos + 1) dir_name))"

text \<open>The loop of \<^verbatim>\<open>_do_sweep\<close> over the sorted names. \<open>delete_ok\<close> tells whether
  \<^verbatim>\<open>delete_directory\<close> succeeds on a name. The results: the status and the names
  deleted. The sleep after a batch of deletions is not modelled.\<close>

fun sweep_loop ::
  "(string \<Rightarrow> bool) \<Rightarrow> (tm \<Rightarrow> int) \<Rightarrow> int \<Rightarrow> int \<Rightarrow> Status \<Rightarrow> string list
     \<Rightarrow> Status \<times> string list" where
  "sweep_loop delete_ok mktime local_now expire res [] = (res, [])"
| "sweep_loop delete_ok mktime local_now expire res (dir_name # rest) =
     (case create_time mktime (str_time_of dir_name) of
        None \<Rightarrow> sweep_loop delete_ok mktime local_now expire OS_ERROR rest
      | Some created \<Rightarrow>
          (case actual_expire_of dir_name expire of
             None \<Rightarrow> (IO_ERROR, [])
           | Some actual_expire \<Rightarrow>
               if local_now - created \<ge> actual_expire then
                 (if delete_ok dir_name
                  then (case sweep_loop delete_ok mktime local_now expire OK rest of
                          (res', deleted) \<Rightarrow> (res', dir_name # deleted))
                  else sweep_loop delete_ok mktime local_now expire DELETE_ERROR rest)
               else (res, [])))"

text \<open>\<^verbatim>\<open>_do_sweep\<close>: nothing to do when the directory does not exist; else its entries
  sorted by name.\<close>

definition do_sweep ::
  "(string \<Rightarrow> bool) \<Rightarrow> (tm \<Rightarrow> int) \<Rightarrow> string list option \<Rightarrow> int \<Rightarrow> int
     \<Rightarrow> Status \<times> string list" where
  "do_sweep delete_ok mktime scan_root local_now expire =
     (case scan_root of
        None \<Rightarrow> (OK, [])
      | Some names \<Rightarrow> sweep_loop delete_ok mktime local_now expire OK (sort names))"

text \<open>One data directory as \<^verbatim>\<open>start_trash_sweep\<close> sees it: the fields of
  \<^verbatim>\<open>DataDirInfo\<close> it reads and the entries of its snapshot and trash directories
  (\<open>None\<close> when the directory does not exist).\<close>

record DataDirInfo =
  path :: string
  is_used :: bool
  disk_capacity :: int
  available :: int
  snapshot_entries :: "string list option"
  trash_entries :: "string list option"

record SweepConfig =
  snapshot_expire_time_sec :: int
  trash_file_expire_time_sec :: int
  storage_flood_stage_usage_percent :: int

text \<open>
  The usage and the guard are \<^verbatim>\<open>double\<close>s. A finite double is the rational number it
  stands for, and every conversion and operation rounds its exact result to the nearest
  double, a tie going to the even significand: \<open>to_double\<close>, for a result in the range of
  the normal doubles, where the numbers of the sweep are. \<open>ilog2 x\<close> is the exponent
  \<open>e\<close> with \<open>2 ^ e \<le> x < 2 ^ (e + 1)\<close>.
\<close>

definition round_half_even :: "rat \<Rightarrow> int" where
  "round_half_even r =
     (let f = \<lfloor>r\<rfloor>; d = r - of_int f
      in if d < 1 / 2 then f else if 1 / 2 < d then f + 1 else if even f then f else f + 1)"

definition ilog2 :: "rat \<Rightarrow> int" where
  "ilog2 x =
     (case quotient_of x of
        (p, q) \<Rightarrow>
          (let d = bitlen p - bitlen q
           in if power_int 2 d \<le> x then d else d - 1))"

definition to_double :: "rat \<Rightarrow> rat" where
  "to_double x =
     (if x = 0 then 0
      else (let e = ilog2 \<bar>x\<bar>
            in sgn x * of_int (round_half_even (\<bar>x\<bar> * power_int 2 (52 - e)))
                 * power_int 2 (e - 52)))"

text \<open>\<^verbatim>\<open>config::storage_flood_stage_usage_percent / 100.0 * 0.9\<close>, or 0.\<close>

definition guard_space :: "SweepConfig \<Rightarrow> bool \<Rightarrow> rat" where
  "guard_space config ignore_guard =
     (if ignore_guard then 0
      else to_double (to_double (of_int (storage_flood_stage_usage_percent config) / 100)
                      * to_double (9 / 10)))"

text \<open>\<^verbatim>\<open>curr_usage > guard_space\<close>, where \<^verbatim>\<open>curr_usage\<close> is
  \<^verbatim>\<open>(double)(disk_capacity - available) / disk_capacity\<close>. With a capacity of 0 the
  quotient is an infinity or not a number, and is above the guard when it is the positive
  infinity. The difference is taken in the integers, which it is unless it overflows 64
  bits.\<close>

definition usage_over_guard :: "SweepConfig \<Rightarrow> bool \<Rightarrow> DataDirInfo \<Rightarrow> bool" where
  "usage_over_guard config ignore_guard info =
     (if disk_capacity info = 0 then disk_capacity info - available info > 0
      else to_double (to_double (of_int (disk_capacity info - available info))
                      / to_double (of_int (disk_capacity info)))
           > guard_space config ignore_guard)"

text \<open>The body of the loop of \<^verbatim>\<open>start_trash_sweep\<close> for one path that is in use: the
  sweep of its snapshot directory, then of its trash directory.\<close>

definition sweep_path ::
  "SweepConfig \<Rightarrow> bool \<Rightarrow> (string \<Rightarrow> bool) \<Rightarrow> (tm \<Rightarrow> int) \<Rightarrow> int \<Rightarrow> DataDirInfo
     \<Rightarrow> (Status \<times> string list) \<times> (Status \<times> string list)" where
  "sweep_path config ignore_guard delete_ok mktime local_now info =
     (do_sweep delete_ok mktime (snapshot_entries info) local_now
        (snapshot_expire_time_sec config),
      do_sweep delete_ok mktime (trash_entries info) local_now
        (if usage_over_guard config ignore_guard info then 0
         else trash_file_expire_time_sec config))"

text \<open>The part of \<^verbatim>\<open>start_trash_sweep\<close> that sweeps the data directories: nothing when
  another sweep holds the lock; a path not in use is passed over. \<open>data_dir_infos\<close> is
  the list as the code has sorted it, and \<open>local_now\<close> is what \<^verbatim>\<open>mktime\<close> returns for
  the local time at which the sweep starts. The cleanups that follow (expired incremental
  rowsets, orphaned transactions and metas, remote garbage) are not modelled.\<close>

definition start_trash_sweep ::
  "SweepConfig \<Rightarrow> bool \<Rightarrow> bool \<Rightarrow> (string \<Rightarrow> bool) \<Rightarrow> (tm \<Rightarrow> int) \<Rightarrow> int
     \<Rightarrow> DataDirInfo list
     \<Rightarrow> (string \<times> (Status \<times> string list) \<times> (Status \<times> string list)) list" where
  "start_trash_sweep config lock_held ignore_guard delete_ok mktime local_now data_dir_infos =
     (if lock_held then []
      else map (\<lambda>info. (path info,
                        sweep_path config ignore_guard delete_ok mktime local_now info))
             (filter is_used data_dir_infos))"

text \<open>The directory of the example: a trash directory with an entry of 12:00:00 that is to
  live a day and an entry of 13:00:00 that is to live ten seconds, on a disk that is 10\%
  full, swept at 14:00:00 with the default expiry of a day, in the time zone UTC.\<close>

definition sweepConfig0 :: SweepConfig where
  "sweepConfig0 =
     \<lparr>snapshot_expire_time_sec = 172800, trash_file_expire_time_sec = 86400,
      storage_flood_stage_usage_percent = 90\<rparr>"

definition dataDir0 :: DataDirInfo where
  "dataDir0 =
     \<lparr>path = ''/data1'', is_used = True, disk_capacity = 1000, available = 900,
      snapshot_entries = None,
      trash_entries = Some [''20240101130000.1.10'', ''20240101120000.1.86400'']\<rparr>"

definition now0 :: int where
  "now0 = 1704117600"

text \<open>The claim's words for one entry: its name has a time stamp, and its age is at least
  the expiry that applies to it.\<close>

definition spec_expired :: "(tm \<Rightarrow> int) \<Rightarrow> int \<Rightarrow> int \<Rightarrow> string \<Rightarrow> bool" where
  "spec_expired mktime local_now expire dir_name =
     (case create_time mktime (str_time_of dir_name) of
        None \<Rightarrow> False
      | Some created \<Rightarrow>
          (case actual_expire_of dir_name expire of
             None \<Rightarrow> False
           | Some actual_expire \<Rightarrow> local_now - created \<ge> actual_expire))"

section \<open>Catalog and transaction records (DatabaseTransactionMgr.java)\<close>

text \<open>
  The catalog classes (\<^verbatim>\<open>Replica\<close>, \<^verbatim>\<open>Tablet\<close>, \<^verbatim>\<open>MaterializedIndex\<close>,
  \<^verbatim>\<open>Partition\<close>, \<^verbatim>\<open>OlapTable\<close>, \<^verbatim>\<open>Database\<close>), \<^verbatim>\<open>TransactionState\<close>
  and \<^verbatim>\<open>PublishVersionTask\<close> are declared outside the given sources. The records
  below hold the fields that \<^verbatim>\<open>DatabaseTransactionMgr\<close> reads and writes through
  their getters and setters, under the getters' names.
\<close>

datatype ReplicaState = Replica_NORMAL | Replica_CLONE | Replica_ALTER | Replica_DECOMMISSION

datatype OlapTableState =
  Table_NORMAL | Table_ROLLUP | Table_SCHEMA_CHANGE | Table_BACKUP | Table_RESTORE
  | Table_WAITING_STABLE

record Replica =
  replicaId :: int
  backendId :: int
  replicaVersion :: int
  lastFailedVersion :: int
  lastSuccessVersion :: int
  replicaState :: ReplicaState

record Tablet =
  tabletId :: int
  replicas :: "Replica list"

record MaterializedIndex =
  indexId :: int
  tablets :: "Tablet list"

text \<open>\<open>loadRequiredReplicaNum\<close> is the value of
  \<^verbatim>\<open>table.getLoadRequiredReplicaNum(partition.getId())\<close>, kept with the partition.\<close>

record Partition =
  partitionId :: int
  visibleVersion :: int
  visibleVersionTime :: int
  nextVersion :: int
  loadRequiredReplicaNum :: int
  materializedIndices :: "MaterializedIndex list"

record OlapTable =
  tableId :: int
  tableState :: OlapTableState
  allPartitions :: "Partition list"

text \<open>A database: its tables by id (\<^verbatim>\<open>getTableNullable\<close>) and the two quotas that
  \<^verbatim>\<open>beginTransaction\<close> reads.\<close>

record Database =
  idToTable :: "int \<Rightarrow> OlapTable option"
  dataQuota :: int
  usedDataQuotaWithLock :: int
  transactionQuotaSize :: int

definition getTableNullable :: "Database \<Rightarrow> int \<Rightarrow> OlapTable option" where
  "getTableNullable db tid = idToTable db tid"

definition getPartition :: "OlapTable \<Rightarrow> int \<Rightarrow> Partition option" where
  "getPartition tbl pid = find (\<lambda>p. partitionId p = pid) (allPartitions tbl)"

definition getIndex :: "Partition \<Rightarrow> int \<Rightarrow> MaterializedIndex option" where
  "getIndex p iid = find (\<lambda>i. indexId i = iid) (materializedIndices p)"

datatype TransactionStatus = UNKNOWN | PREPARE | COMMITTED | VISIBLE | ABORTED | PRECOMMITTED

text \<open>Modelled from the spec: \<^verbatim>\<open>TransactionStatus.isFinalStatus\<close> is outside the
  sources; the spec has VISIBLE and ABORTED final and all other states running.\<close>

definition isFinalStatus :: "TransactionStatus \<Rightarrow> bool" where
  "isFinalStatus st = (st = VISIBLE \<or> st = ABORTED)"

datatype LoadJobSourceType =
  FRONTEND | BACKEND_STREAMING | INSERT_STREAMING | ROUTINE_LOAD_TASK | BATCH_LOAD_JOB

text \<open>A message built with \<^verbatim>\<open>String.format\<close> is its format with the arguments.\<close>

datatype ErrorMsg =
  WaitForPublishing int int int int
    \<comment> \<open>"wait for publishing partition \%d version \%d. self version: \%d. table \%d"\<close>
  | PublishOnTabletFailed int int int int int int
    \<comment> \<open>"publish on tablet \%d failed. succeed replica num \%d < load required replica num \%d.
        table: \%d, partition: \%d, publish version: \%d"\<close>

datatype CommitFailure =
  TxnNotFound | AlreadyAborted | AlreadyVisibleNotPreCommitted | AlreadyCommittedNotPreCommitted
  | IsPrepareNotPreCommitted | SchemaIncompatible
  | CouldNotFindReplica int int  \<comment> \<open>tablet, backend\<close>

datatype Exception =
  MetaNotFoundException
  | QuotaExceedException
  | AnalysisException
  | DuplicatedRequestException int          \<comment> \<open>carries the existing transaction id\<close>
  | LabelAlreadyUsedException int           \<comment> \<open>the id of the non-aborted transaction\<close>
  | BeginTransactionException
  | TransactionCommitFailedException CommitFailure
  | TabletQuorumFailedException int int int \<comment> \<open>tablet, succ replica num, required num\<close>
  | LoadException
  | TransactionNotFoundException
  | UserException
  | IllegalStateException
  | NullPointerException

datatype 'a Outcome = Returned 'a | Thrown Exception

record PublishVersionTask =
  isFinished :: bool
  succTablets :: "(int \<times> int) list option"
  errorTablets :: "int list option"

record PartitionCommitInfo =
  pciPartitionId :: int
  pciVersion :: int
  pciVersionTime :: int

record TableCommitInfo =
  tciTableId :: int
  idToPartitionCommitInfo :: "(int \<times> PartitionCommitInfo) list"

type_synonym TUniqueId = "int \<times> int"

record TransactionState =
  transactionId :: int
  label :: string
  requestId :: "TUniqueId option"
  sourceType :: LoadJobSourceType
  transactionStatus :: TransactionStatus
  tableIdList :: "int list"
  prepareTime :: int
  preCommitTime :: int
  commitTime :: int
  firstPublishVersionTime :: int
  lastPublishLogTime :: int
  finishTime :: int
  timeoutMs :: int
  reason :: string
  errMsg :: "ErrorMsg option"
  errorReplicas :: "int set"
  idToTableCommitInfos :: "(int \<times> TableCommitInfo) list"
  publishVersionTasks :: "(int \<times> PublishVersionTask option) list"
  loadedTblIndexes :: "(int \<times> int list) list"
  txnCommitAttachment :: "nat option"
  publishTimeoutProlonged :: bool
  isPartialUpdate :: bool
  isShortTxn :: bool

text \<open>Configuration values and the collaborators reached through \<^verbatim>\<open>Env\<close>, as seen by
  one call: the database (\<open>None\<close> when \<^verbatim>\<open>getDbOrMetaException\<close> throws), the tablet
  inverted index, the watershed transaction ids of the unfinished alter jobs of a table,
  the clock, the outcome of the label format and internal database checks, and the
  \<^verbatim>\<open>TransactionState\<close> and \<^verbatim>\<open>Replica\<close> methods whose bodies are outside the
  sources. Logging, metrics, lock handling and the listener callbacks
  (\<^verbatim>\<open>beforeStateTransform\<close>, \<^verbatim>\<open>afterStateTransform\<close>) are not modelled.\<close>

record TabletMeta =
  tmTableId :: int
  tmPartitionId :: int

record Env =
  publish_wait_time_second :: int
  publish_version_check_alter_replica :: bool
  publish_fail_log_interval_second :: int
  maxFinalTxnsNum :: int
  currentTimeMillis :: int
  tabletMetaOf :: "int \<Rightarrow> TabletMeta option"
  replicaOf :: "int \<Rightarrow> int \<Rightarrow> Replica option"
  schemaChangeWatersheds :: "int \<Rightarrow> int list"
  rollupWatersheds :: "int \<Rightarrow> int list"
  checkVersionCatchUp :: "Replica \<Rightarrow> int \<Rightarrow> bool"
  checkSchemaCompatibility :: "TransactionState \<Rightarrow> OlapTable \<Rightarrow> bool"
  isExpired :: "TransactionState \<Rightarrow> int \<Rightarrow> bool"
  isTimeout :: "TransactionState \<Rightarrow> int \<Rightarrow> bool"
  updateLastFailedVersion :: "Replica \<Rightarrow> int \<Rightarrow> Replica"
  updateVersionWithFailedInfo :: "Replica \<Rightarrow> int \<Rightarrow> int \<Rightarrow> int \<Rightarrow> Replica"
  labelFormatOk :: "string \<Rightarrow> bool"
  checkDatabaseOk :: bool
  isShortSource :: "LoadJobSourceType \<Rightarrow> bool"
  allBackendIds :: "int list"

section \<open>Publish: the checks of finishTransaction\<close>

datatype PublishResult = FAILED | TIMEOUT_SUCC | QUORUM_SUCC

text \<open>\<^verbatim>\<open>isAlterReplicaLoadedTxn\<close>: the unfinished alter jobs come from the schema change
  handler or the materialized view handler, by the table's state.\<close>

definition isAlterReplicaLoadedTxn :: "Env \<Rightarrow> int \<Rightarrow> OlapTable \<Rightarrow> bool" where
  "isAlterReplicaLoadedTxn env txnId tbl =
     (if tableState tbl = Table_SCHEMA_CHANGE
        then list_all (\<lambda>watershed. txnId > watershed) (schemaChangeWatersheds env (tableId tbl))
      else if tableState tbl = Table_ROLLUP
        then list_all (\<lambda>watershed. txnId > watershed) (rollupWatersheds env (tableId tbl))
      else True)"

text \<open>The four collections that \<^verbatim>\<open>checkReplicaContinuousVersionSucc\<close> mutates.\<close>

record ReplicaCheck =
  errorReplicaIds :: "int set"
  tabletSuccReplicas :: "Replica list"
  tabletWriteFailedReplicas :: "Replica list"
  tabletVersionFailedReplicas :: "Replica list"

definition checkReplicaContinuousVersionSucc ::
  "Env \<Rightarrow> int \<Rightarrow> Replica \<Rightarrow> bool \<Rightarrow> int \<Rightarrow> PublishVersionTask option
     \<Rightarrow> ReplicaCheck \<Rightarrow> ReplicaCheck" where
  "checkReplicaContinuousVersionSucc env tablet_id replica alterReplicaLoadedTxn version
       backendPublishTask c =
     (let rid = replicaId replica;
          e0 = errorReplicaIds c;
          e1 = (case backendPublishTask of
                  None \<Rightarrow> insert rid e0
                | Some task \<Rightarrow>
                    if \<not> isFinished task then insert rid e0
                    else (case succTablets task of
                            Some backendSuccTablets \<Rightarrow>
                              if tablet_id \<in> fst ` set backendSuccTablets
                              then e0 - {rid} else insert rid e0
                          | None \<Rightarrow>
                              (case errorTablets task of
                                 Some backendErrorTablets \<Rightarrow>
                                   if tablet_id \<in> set backendErrorTablets
                                   then insert rid e0 else e0
                               | None \<Rightarrow> e0)));
          e2 = (if replicaState replica = Replica_ALTER
                   \<and> (\<not> alterReplicaLoadedTxn \<or> \<not> publish_version_check_alter_replica env)
                then e1 - {rid} else e1)
      in if rid \<notin> e2 then
           (if checkVersionCatchUp env replica (version - 1)
            then c\<lparr>errorReplicaIds := e2,
                   tabletSuccReplicas := tabletSuccReplicas c @ [replica]\<rparr>
            else c\<lparr>errorReplicaIds := e2,
                   tabletVersionFailedReplicas := tabletVersionFailedReplicas c @ [replica]\<rparr>)
         else if replicaVersion replica \<ge> version then
           c\<lparr>errorReplicaIds := e2 - {rid},
             tabletSuccReplicas := tabletSuccReplicas c @ [replica]\<rparr>
         else
           c\<lparr>errorReplicaIds := e2,
             tabletWriteFailedReplicas := tabletWriteFailedReplicas c @ [replica]\<rparr>)"

text \<open>The claim's description of the same step, in its own words: first whether the replica
  is recorded as errored, then its class.\<close>

datatype ReplicaClass = Success | VersionFailed | WriteFailed

definition spec_errored_by_task ::
  "int \<Rightarrow> int \<Rightarrow> PublishVersionTask option \<Rightarrow> int set \<Rightarrow> int set" where
  "spec_errored_by_task tablet_id rid task errs =
     (if task = None \<or> (\<exists>t. task = Some t \<and> \<not> isFinished t) then insert rid errs
      else if \<exists>t s. task = Some t \<and> succTablets t = Some s then
        (if \<exists>t s. task = Some t \<and> succTablets t = Some s \<and> tablet_id \<in> fst ` set s
         then errs - {rid} else insert rid errs)
      else if \<exists>t l. task = Some t \<and> errorTablets t = Some l \<and> tablet_id \<in> set l
        then insert rid errs
      else errs)"

definition spec_errored ::
  "Env \<Rightarrow> int \<Rightarrow> Replica \<Rightarrow> bool \<Rightarrow> PublishVersionTask option \<Rightarrow> int set \<Rightarrow> int set" where
  "spec_errored env tablet_id replica alterReplicaLoadedTxn task errs =
     (let e = spec_errored_by_task tablet_id (replicaId replica) task errs
      in if replicaState replica = Replica_ALTER
            \<and> (\<not> alterReplicaLoadedTxn \<or> \<not> publish_version_check_alter_replica env)
         then e - {replicaId replica} else e)"

definition spec_replica_class ::
  "Env \<Rightarrow> int \<Rightarrow> Replica \<Rightarrow> bool \<Rightarrow> int \<Rightarrow> PublishVersionTask option \<Rightarrow> int set
     \<Rightarrow> ReplicaClass" where
  "spec_replica_class env tablet_id replica alterReplicaLoadedTxn version task errs =
     (let errored = replicaId replica \<in> spec_errored env tablet_id replica alterReplicaLoadedTxn task errs;
          continuous = checkVersionCatchUp env replica (version - 1)
      in if \<not> errored \<and> continuous then Success
         else if \<not> errored then VersionFailed
         else if replicaVersion replica \<ge> version then Success
         else WriteFailed)"

text \<open>\<^verbatim>\<open>finishCheckPartitionVersion\<close>. The two nested iterator loops; an entry is removed
  through the iterator, and the first partition that is not the next to publish ends the
  method, leaving the entries not yet visited in place. The results: the commit infos
  as left in the transaction, the pairs added to \<^verbatim>\<open>relatedTblPartitions\<close>, and the error
  message when the method returns false.\<close>

fun checkPartitionInfos ::
  "OlapTable \<Rightarrow> (int \<times> PartitionCommitInfo) list
     \<Rightarrow> (int \<times> PartitionCommitInfo) list \<times> (OlapTable \<times> Partition) list \<times> ErrorMsg option" where
  "checkPartitionInfos tbl [] = ([], [], None)"
| "checkPartitionInfos tbl ((k, pci) # rest) =
     (case getPartition tbl (pciPartitionId pci) of
        None \<Rightarrow> checkPartitionInfos tbl rest
      | Some part \<Rightarrow>
          if visibleVersion part \<noteq> pciVersion pci - 1 then
            ((k, pci) # rest, [],
             Some (WaitForPublishing (pciPartitionId pci) (visibleVersion part + 1)
                     (pciVersion pci) (tableId tbl)))
          else (case checkPartitionInfos tbl rest of
                  (kept, related, err) \<Rightarrow> ((k, pci) # kept, (tbl, part) # related, err)))"

fun checkTableInfos ::
  "Database \<Rightarrow> (int \<times> TableCommitInfo) list
     \<Rightarrow> (int \<times> TableCommitInfo) list \<times> (OlapTable \<times> Partition) list \<times> ErrorMsg option" where
  "checkTableInfos db [] = ([], [], None)"
| "checkTableInfos db ((k, tci) # rest) =
     (case getTableNullable db (tciTableId tci) of
        None \<Rightarrow> checkTableInfos db rest
      | Some tbl \<Rightarrow>
          (case checkPartitionInfos tbl (idToPartitionCommitInfo tci) of
             (pkept, prelated, Some e) \<Rightarrow>
               ((k, tci\<lparr>idToPartitionCommitInfo := pkept\<rparr>) # rest, prelated, Some e)
           | (pkept, prelated, None) \<Rightarrow>
               (case checkTableInfos db rest of
                  (kept, related, err) \<Rightarrow>
                    ((k, tci\<lparr>idToPartitionCommitInfo := pkept\<rparr>) # kept,
                     prelated @ related, err))))"

definition finishCheckPartitionVersion ::
  "TransactionState \<Rightarrow> Database
     \<Rightarrow> bool \<times> TransactionState \<times> (OlapTable \<times> Partition) list" where
  "finishCheckPartitionVersion txn db =
     (case checkTableInfos db (idToTableCommitInfos txn) of
        (infos, related, None) \<Rightarrow> (True, txn\<lparr>idToTableCommitInfos := infos\<rparr>, related)
      | (infos, related, Some e) \<Rightarrow>
          (False, txn\<lparr>idToTableCommitInfos := infos, errMsg := Some e\<rparr>, related))"

text \<open>The claim's words for the same method: the commit infos without the entries of dropped
  tables and partitions, and the surviving partition entries with their partitions.\<close>

definition spec_surviving_partitions ::
  "OlapTable \<Rightarrow> (int \<times> PartitionCommitInfo) list \<Rightarrow> (int \<times> PartitionCommitInfo) list" where
  "spec_surviving_partitions tbl pinfos =
     filter (\<lambda>(k, pci). getPartition tbl (pciPartitionId pci) \<noteq> None) pinfos"

definition spec_surviving_infos ::
  "Database \<Rightarrow> (int \<times> TableCommitInfo) list \<Rightarrow> (int \<times> TableCommitInfo) list" where
  "spec_surviving_infos db infos =
     List.map_filter
       (\<lambda>(k, tci). case getTableNullable db (tciTableId tci) of
                     None \<Rightarrow> None
                   | Some tbl \<Rightarrow>
                       Some (k, tci\<lparr>idToPartitionCommitInfo :=
                                      spec_surviving_partitions tbl (idToPartitionCommitInfo tci)\<rparr>))
       infos"

definition spec_partition_next_to_publish :: "OlapTable \<Rightarrow> PartitionCommitInfo \<Rightarrow> bool" where
  "spec_partition_next_to_publish tbl pci =
     (case getPartition tbl (pciPartitionId pci) of
        None \<Rightarrow> True
      | Some part \<Rightarrow> visibleVersion part + 1 = pciVersion pci)"

definition spec_all_next_to_publish :: "Database \<Rightarrow> (int \<times> TableCommitInfo) list \<Rightarrow> bool" where
  "spec_all_next_to_publish db infos =
     list_all
       (\<lambda>(k, tci). case getTableNullable db (tciTableId tci) of
                     None \<Rightarrow> True
                   | Some tbl \<Rightarrow>
                       list_all (\<lambda>(k', pci). spec_partition_next_to_publish tbl pci)
                         (idToPartitionCommitInfo tci))
       infos"


text \<open>The amended claim's words. The entries are visited in the iteration order of the maps,
  the tables and within a table its partitions, up to the first partition that exists and
  is not the next to publish: the method returns false there. A table entry is
  \<^emph>\<open>clear\<close> when no such partition is among its partitions. The commit infos afterwards:
  of the entries visited before that partition those of existing tables and partitions;
  then the entry of that partition and all entries after it, dropped or not.\<close>

definition spec_table_clear :: "Database \<Rightarrow> int \<times> TableCommitInfo \<Rightarrow> bool" where
  "spec_table_clear db =
     (\<lambda>(k, tci). case getTableNullable db (tciTableId tci) of
                   None \<Rightarrow> True
                 | Some tbl \<Rightarrow>
                     list_all (\<lambda>(k', pci). spec_partition_next_to_publish tbl pci)
                       (idToPartitionCommitInfo tci))"

definition spec_partitions_after ::
  "OlapTable \<Rightarrow> (int \<times> PartitionCommitInfo) list \<Rightarrow> (int \<times> PartitionCommitInfo) list" where
  "spec_partitions_after tbl pinfos =
     spec_surviving_partitions tbl
       (takeWhile (\<lambda>(k', pci). spec_partition_next_to_publish tbl pci) pinfos)
     @ dropWhile (\<lambda>(k', pci). spec_partition_next_to_publish tbl pci) pinfos"

definition spec_infos_after ::
  "Database \<Rightarrow> (int \<times> TableCommitInfo) list \<Rightarrow> (int \<times> TableCommitInfo) list" where
  "spec_infos_after db infos =
     spec_surviving_infos db (takeWhile (spec_table_clear db) infos)
     @ (case dropWhile (spec_table_clear db) infos of
          [] \<Rightarrow> []
        | (k, tci) # rest \<Rightarrow>
            (k, tci\<lparr>idToPartitionCommitInfo :=
                     (case getTableNullable db (tciTableId tci) of
                        None \<Rightarrow> idToPartitionCommitInfo tci
                      | Some tbl \<Rightarrow> spec_partitions_after tbl (idToPartitionCommitInfo tci))\<rparr>)
            # rest)"

text \<open>The message: it names the first partition, in this order, that exists and is not the
  next to publish, the version it waits for, its own version and its table.\<close>

definition spec_partition_message ::
  "OlapTable \<Rightarrow> (int \<times> PartitionCommitInfo) list \<Rightarrow> ErrorMsg option" where
  "spec_partition_message tbl pinfos =
     (case dropWhile (\<lambda>(k', pci). spec_partition_next_to_publish tbl pci) pinfos of
        [] \<Rightarrow> None
      | (k', pci) # rest \<Rightarrow>
          (case getPartition tbl (pciPartitionId pci) of
             None \<Rightarrow> None
           | Some part \<Rightarrow>
               Some (WaitForPublishing (pciPartitionId pci) (visibleVersion part + 1)
                       (pciVersion pci) (tableId tbl))))"

definition spec_wait_message :: "Database \<Rightarrow> (int \<times> TableCommitInfo) list \<Rightarrow> ErrorMsg option" where
  "spec_wait_message db infos =
     (case dropWhile (spec_table_clear db) infos of
        [] \<Rightarrow> None
      | (k, tci) # rest \<Rightarrow>
          (case getTableNullable db (tciTableId tci) of
             None \<Rightarrow> None
           | Some tbl \<Rightarrow> spec_partition_message tbl (idToPartitionCommitInfo tci)))"

text \<open>The pairs added to \<^verbatim>\<open>relatedTblPartitions\<close>: the existing partitions visited before
  the method returns, with their tables.\<close>

definition spec_related_partitions ::
  "OlapTable \<Rightarrow> (int \<times> PartitionCommitInfo) list \<Rightarrow> (OlapTable \<times> Partition) list" where
  "spec_related_partitions tbl pinfos =
     List.map_filter (\<lambda>(k', pci). map_option (Pair tbl) (getPartition tbl (pciPartitionId pci)))
       (takeWhile (\<lambda>(k', pci). spec_partition_next_to_publish tbl pci) pinfos)"

definition spec_related ::
  "Database \<Rightarrow> (int \<times> TableCommitInfo) list \<Rightarrow> (OlapTable \<times> Partition) list" where
  "spec_related db infos =
     concat (map (\<lambda>(k, tci). case getTableNullable db (tciTableId tci) of
                               None \<Rightarrow> []
                             | Some tbl \<Rightarrow>
                                 spec_related_partitions tbl (idToPartitionCommitInfo tci))
               (takeWhile (spec_table_clear db) infos
                @ take 1 (dropWhile (spec_table_clear db) infos)))"
section \<open>Concrete values for the worked examples\<close>

definition replica0 :: Replica where
  "replica0 = \<lparr>replicaId = 0, backendId = 0, replicaVersion = 1, lastFailedVersion = - 1,
               lastSuccessVersion = 1, replicaState = Replica_NORMAL\<rparr>"

definition txn0 :: TransactionState where
  "txn0 = \<lparr>transactionId = 0, label = ''L'', requestId = None, sourceType = BACKEND_STREAMING,
            transactionStatus = PREPARE, tableIdList = [], prepareTime = 0, preCommitTime = - 1,
            commitTime = - 1, firstPublishVersionTime = - 1, lastPublishLogTime = 0,
            finishTime = - 1, timeoutMs = 60000, reason = [], errMsg = None, errorReplicas = {},
            idToTableCommitInfos = [], publishVersionTasks = [], loadedTblIndexes = [],
            txnCommitAttachment = None, publishTimeoutProlonged = False,
            isPartialUpdate = False, isShortTxn = True\<rparr>"

definition env0 :: Env where
  "env0 = \<lparr>publish_wait_time_second = 30, publish_version_check_alter_replica = True,
            publish_fail_log_interval_second = 300, maxFinalTxnsNum = 2000,
            currentTimeMillis = 100000,
            tabletMetaOf = (\<lambda>_. None), replicaOf = (\<lambda>_ _. None),
            schemaChangeWatersheds = (\<lambda>_. []), rollupWatersheds = (\<lambda>_. []),
            checkVersionCatchUp = (\<lambda>r expected. expected \<le> replicaVersion r),
            checkSchemaCompatibility = (\<lambda>_ _. True),
            isExpired = (\<lambda>t now. finishTime t \<noteq> - 1 \<and> now - finishTime t > 3000),
            isTimeout = (\<lambda>t now. transactionStatus t = PREPARE \<and> now - prepareTime t > timeoutMs t),
            updateLastFailedVersion = (\<lambda>r v. r\<lparr>lastFailedVersion := v\<rparr>),
            updateVersionWithFailedInfo =
              (\<lambda>r v lf ls. r\<lparr>replicaVersion := v, lastFailedVersion := lf,
                               lastSuccessVersion := ls\<rparr>),
            labelFormatOk = (\<lambda>l. l \<noteq> []), checkDatabaseOk = True,
            isShortSource = (\<lambda>src. src \<noteq> BATCH_LOAD_JOB),
            allBackendIds = [1, 2, 3]\<rparr>"

definition db0 :: Database where
  "db0 = \<lparr>idToTable = (\<lambda>_. None), dataQuota = 1000, usedDataQuotaWithLock = 0,
           transactionQuotaSize = 100\<rparr>"

text \<open>A table 1 with one partition 10 (visible version 5, next version 7, two replicas
  required), one index 100 and one tablet 1000 with replicas 1 and 2 on backends 1 and 2.\<close>

definition tablet1000 :: Tablet where
  "tablet1000 =
     \<lparr>tabletId = 1000,
      replicas = [replica0\<lparr>replicaId := 1, backendId := 1, replicaVersion := 5\<rparr>,
                  replica0\<lparr>replicaId := 2, backendId := 2, replicaVersion := 5\<rparr>]\<rparr>"

definition partition10 :: Partition where
  "partition10 =
     \<lparr>partitionId = 10, visibleVersion = 5, visibleVersionTime = 0, nextVersion = 7, loadRequiredReplicaNum = 2,
      materializedIndices = [\<lparr>indexId = 100, tablets = [tablet1000]\<rparr>]\<rparr>"

definition table1 :: OlapTable where
  "table1 = \<lparr>tableId = 1, tableState = Table_NORMAL, allPartitions = [partition10]\<rparr>"

definition db1 :: Database where
  "db1 = db0\<lparr>idToTable := (\<lambda>_. None)(1 := Some table1)\<rparr>"

definition pci :: "int \<Rightarrow> int \<Rightarrow> PartitionCommitInfo" where
  "pci pid v = \<lparr>pciPartitionId = pid, pciVersion = v, pciVersionTime = 0\<rparr>"

definition tci :: "int \<Rightarrow> (int \<times> int) list \<Rightarrow> int \<times> TableCommitInfo" where
  "tci tid pvs = (tid, \<lparr>tciTableId = tid,
                       idToPartitionCommitInfo = map (\<lambda>(p, v). (p, pci p v)) pvs\<rparr>)"

text \<open>A committed transaction whose commit infos name partition 10 of table 1 at the given
  version and partition 20 of table 2, a table that \<open>db1\<close> does not have.\<close>

definition txnCommitted :: "int \<Rightarrow> TransactionState" where
  "txnCommitted v =
     txn0\<lparr>transactionId := 7, transactionStatus := COMMITTED,
          idToTableCommitInfos := [tci 1 [(10, v)], tci 2 [(20, 3)]]\<rparr>"

text \<open>A finished publish task that reports tablet 1000 as published.\<close>

definition taskSucc1000 :: PublishVersionTask where
  "taskSucc1000 = \<lparr>isFinished = True, succTablets = Some [(1000, 6)], errorTablets = None\<rparr>"

definition replicaCheck0 :: "int set \<Rightarrow> ReplicaCheck" where
  "replicaCheck0 errs =
     \<lparr>errorReplicaIds = errs, tabletSuccReplicas = [], tabletWriteFailedReplicas = [],
      tabletVersionFailedReplicas = []\<rparr>"

text \<open>The spec's scenario (c): transaction 7 is COMMITTED with partition 10 at version 6; the
  publish task of backend 1 has finished and reports tablet 1000, that of backend 2 has not
  finished; the first publish was at 1000 ms and the clock of \<open>env0\<close> reads 100000 ms.\<close>

definition txnPublishing :: TransactionState where
  "txnPublishing =
     txn0\<lparr>transactionId := 7, transactionStatus := COMMITTED,
          idToTableCommitInfos := [tci 1 [(10, 6)]],
          firstPublishVersionTime := 1000,
          publishVersionTasks :=
            [(1, Some taskSucc1000),
             (2, Some \<lparr>isFinished = False, succTablets = None, errorTablets = None\<rparr>)]\<rparr>"


text \<open>The same transaction at version 8 with the entry of the dropped table 2 before that of
  table 1 in the iteration order.\<close>

definition txnCommittedDroppedFirst :: TransactionState where
  "txnCommittedDroppedFirst =
     txn0\<lparr>transactionId := 7, transactionStatus := COMMITTED,
          idToTableCommitInfos := [tci 2 [(20, 3)], tci 1 [(10, 8)]]\<rparr>"
section \<open>Publish: the quorum check and finishTransaction\<close>

text \<open>\<^verbatim>\<open>publishTasks.get(replica.getBackendId())\<close>: \<open>None\<close> for a backend with no
  entry and for the \<^verbatim>\<open>null\<close> placeholder that commit puts there.\<close>

definition publishTaskOf :: "TransactionState \<Rightarrow> int \<Rightarrow> PublishVersionTask option" where
  "publishTaskOf txn be =
     (case map_of (publishVersionTasks txn) be of Some (Some task) \<Rightarrow> Some task | _ \<Rightarrow> None)"

text \<open>The indices a transaction covers in a partition: all of them when it declared no
  loaded indexes, else the declared ones that the partition still has. A non-empty
  \<^verbatim>\<open>loadedTblIndexes\<close> with no entry for the table makes the Java for-each throw.\<close>

definition selectIndices ::
  "TransactionState \<Rightarrow> int \<Rightarrow> Partition \<Rightarrow> Exception + MaterializedIndex list" where
  "selectIndices txn tid part =
     (if loadedTblIndexes txn = [] then Inr (materializedIndices part)
      else case map_of (loadedTblIndexes txn) tid of
             None \<Rightarrow> Inl NullPointerException
           | Some indexIds \<Rightarrow> Inr (List.map_filter (getIndex part) indexIds))"

text \<open>The inner loop over \<^verbatim>\<open>tablet.getReplicas()\<close>, after the three lists are cleared.\<close>

definition checkTabletReplicas ::
  "Env \<Rightarrow> TransactionState \<Rightarrow> bool \<Rightarrow> int \<Rightarrow> int set \<Rightarrow> Tablet \<Rightarrow> ReplicaCheck" where
  "checkTabletReplicas env txn alterReplicaLoadedTxn newVersion errs tablet =
     foldl (\<lambda>c replica.
              checkReplicaContinuousVersionSucc env (tabletId tablet) replica
                alterReplicaLoadedTxn newVersion (publishTaskOf txn (backendId replica)) c)
       \<lparr>errorReplicaIds = errs, tabletSuccReplicas = [], tabletWriteFailedReplicas = [],
        tabletVersionFailedReplicas = []\<rparr>
       (replicas tablet)"

text \<open>What the loops of \<^verbatim>\<open>finishCheckQuorumReplicas\<close> carry from tablet to tablet: the
  shared error replica set, the verdict so far and the transaction's error message.\<close>

record QuorumCheck =
  qErrorReplicaIds :: "int set"
  publishResult :: PublishResult
  qErrMsg :: "ErrorMsg option"

definition checkTabletQuorum ::
  "Env \<Rightarrow> TransactionState \<Rightarrow> OlapTable \<Rightarrow> Partition \<Rightarrow> bool \<Rightarrow> QuorumCheck \<Rightarrow> Tablet
     \<Rightarrow> QuorumCheck" where
  "checkTabletQuorum env txn tbl part allowPublishOneSucc q tablet =
     (let newVersion = visibleVersion part + 1;
          c = checkTabletReplicas env txn (isAlterReplicaLoadedTxn env (transactionId txn) tbl)
                newVersion (qErrorReplicaIds q) tablet;
          healthReplicaNum = int (length (tabletSuccReplicas c));
          q1 = q\<lparr>qErrorReplicaIds := errorReplicaIds c\<rparr>
      in if healthReplicaNum \<ge> loadRequiredReplicaNum part then q1
         else if allowPublishOneSucc \<and> healthReplicaNum > 0 then
           (if publishResult q1 = QUORUM_SUCC then q1\<lparr>publishResult := TIMEOUT_SUCC\<rparr> else q1)
         else q1\<lparr>publishResult := FAILED,
                 qErrMsg := Some (PublishOnTabletFailed (tabletId tablet) healthReplicaNum
                                    (loadRequiredReplicaNum part) (tableId tbl)
                                    (partitionId part) newVersion)\<rparr>)"

fun checkPartitionsQuorum ::
  "Env \<Rightarrow> TransactionState \<Rightarrow> bool \<Rightarrow> QuorumCheck \<Rightarrow> (OlapTable \<times> Partition) list
     \<Rightarrow> Exception option \<times> QuorumCheck" where
  "checkPartitionsQuorum env txn allowPublishOneSucc q [] = (None, q)"
| "checkPartitionsQuorum env txn allowPublishOneSucc q ((tbl, part) # rest) =
     (case selectIndices txn (tableId tbl) part of
        Inl e \<Rightarrow> (Some e, q)
      | Inr allIndices \<Rightarrow>
          checkPartitionsQuorum env txn allowPublishOneSucc
            (foldl (checkTabletQuorum env txn tbl part allowPublishOneSucc) q
               (concat (map tablets allIndices)))
            rest)"

definition allowPublishOneSucc :: "Env \<Rightarrow> TransactionState \<Rightarrow> bool" where
  "allowPublishOneSucc env txn =
     (publish_wait_time_second env > 0 \<and> firstPublishVersionTime txn > 0
      \<and> currentTimeMillis env
            \<ge> firstPublishVersionTime txn + publish_wait_time_second env * 1000)"

text \<open>\<^verbatim>\<open>finishCheckQuorumReplicas\<close>. \<^verbatim>\<open>errorReplicaIds\<close> is the set that
  \<^verbatim>\<open>transactionState.getErrorReplicas()\<close> returned, so what the loops add to and remove
  from it is written to the transaction whatever the verdict.\<close>

definition finishCheckQuorumReplicas ::
  "Env \<Rightarrow> TransactionState \<Rightarrow> (OlapTable \<times> Partition) list
     \<Rightarrow> PublishResult Outcome \<times> TransactionState" where
  "finishCheckQuorumReplicas env txn relatedTblPartitions =
     (let now = currentTimeMillis env
      in case checkPartitionsQuorum env txn (allowPublishOneSucc env txn)
                \<lparr>qErrorReplicaIds = errorReplicas txn, publishResult = QUORUM_SUCC,
                 qErrMsg = errMsg txn\<rparr>
                relatedTblPartitions of
           (Some e, q) \<Rightarrow>
             (Thrown e, txn\<lparr>errorReplicas := qErrorReplicaIds q, errMsg := qErrMsg q\<rparr>)
         | (None, q) \<Rightarrow>
             (let needLog = (publishResult q \<noteq> FAILED
                    \<or> now - lastPublishLogTime txn > publish_fail_log_interval_second env * 1000)
              in (Returned (publishResult q),
                  txn\<lparr>errorReplicas := qErrorReplicaIds q, errMsg := qErrMsg q,
                      lastPublishLogTime := (if needLog then now else lastPublishLogTime txn)\<rparr>)))"

text \<open>The claim's words for the verdict: the number of successful replicas of every tablet
  visited, with the number its partition requires, in visiting order. The error replica
  set is carried along, because the classification of a replica reads it.\<close>

definition spec_tablet_health ::
  "Env \<Rightarrow> TransactionState \<Rightarrow> OlapTable \<Rightarrow> Partition \<Rightarrow> int set \<Rightarrow> Tablet \<Rightarrow> int" where
  "spec_tablet_health env txn tbl part errs tablet =
     int (length (tabletSuccReplicas
       (checkTabletReplicas env txn (isAlterReplicaLoadedTxn env (transactionId txn) tbl)
          (visibleVersion part + 1) errs tablet)))"

definition spec_errs_after ::
  "Env \<Rightarrow> TransactionState \<Rightarrow> OlapTable \<Rightarrow> Partition \<Rightarrow> int set \<Rightarrow> Tablet \<Rightarrow> int set" where
  "spec_errs_after env txn tbl part errs tablet =
     errorReplicaIds
       (checkTabletReplicas env txn (isAlterReplicaLoadedTxn env (transactionId txn) tbl)
          (visibleVersion part + 1) errs tablet)"

fun spec_tablets_health ::
  "Env \<Rightarrow> TransactionState \<Rightarrow> OlapTable \<Rightarrow> Partition \<Rightarrow> int set \<Rightarrow> Tablet list
     \<Rightarrow> (int \<times> int) list \<times> int set" where
  "spec_tablets_health env txn tbl part errs [] = ([], errs)"
| "spec_tablets_health env txn tbl part errs (tablet # rest) =
     (case spec_tablets_health env txn tbl part
             (spec_errs_after env txn tbl part errs tablet) rest of
        (hs, errs') \<Rightarrow>
          ((spec_tablet_health env txn tbl part errs tablet, loadRequiredReplicaNum part) # hs,
           errs'))"

fun spec_publish_health ::
  "Env \<Rightarrow> TransactionState \<Rightarrow> int set \<Rightarrow> (OlapTable \<times> Partition) list
     \<Rightarrow> (int \<times> int) list option" where
  "spec_publish_health env txn errs [] = Some []"
| "spec_publish_health env txn errs ((tbl, part) # rest) =
     (case selectIndices txn (tableId tbl) part of
        Inl e \<Rightarrow> None
      | Inr allIndices \<Rightarrow>
          (case spec_tablets_health env txn tbl part errs (concat (map tablets allIndices)) of
             (hs, errs') \<Rightarrow>
               (case spec_publish_health env txn errs' rest of
                  None \<Rightarrow> None
                | Some hs' \<Rightarrow> Some (hs @ hs'))))"

definition spec_verdict :: "bool \<Rightarrow> (int \<times> int) list \<Rightarrow> PublishResult" where
  "spec_verdict waited hs =
     (if list_all (\<lambda>(succ, required). succ \<ge> required) hs then QUORUM_SUCC
      else if waited \<and> list_all (\<lambda>(succ, required). succ < required \<longrightarrow> succ > 0) hs
        then TIMEOUT_SUCC
      else FAILED)"

text \<open>The verdict after a run of tablets, from the verdict before it: it is FAILED once a
  tablet under its quorum may not pass on a timeout, else TIMEOUT\_SUCC once some tablet is
  under its quorum.\<close>

definition verdictAfter :: "bool \<Rightarrow> PublishResult \<Rightarrow> (int \<times> int) list \<Rightarrow> PublishResult" where
  "verdictAfter allow r hs =
     (if r = FAILED \<or> list_ex (\<lambda>(h, req). h < req \<and> \<not> (allow \<and> h > 0)) hs then FAILED
      else if r = TIMEOUT_SUCC \<or> list_ex (\<lambda>(h, req). h < req) hs then TIMEOUT_SUCC
      else QUORUM_SUCC)"

section \<open>Commit: checkCommitStatus\<close>

text \<open>A \<^verbatim>\<open>Map<Long, Set<Long>>\<close> filled with \<^verbatim>\<open>containsKey\<close>, \<^verbatim>\<open>put\<close> and
  \<^verbatim>\<open>get(k).add(v)\<close>, as an association list.\<close>

definition addToSetMap :: "(int \<times> int list) list \<Rightarrow> int \<Rightarrow> int \<Rightarrow> (int \<times> int list) list" where
  "addToSetMap m k v =
     (case map_of m k of
        None \<Rightarrow> m @ [(k, [v])]
      | Some _ \<Rightarrow> map (\<lambda>(k', vs). if k' = k then (k', List.insert v vs) else (k', vs)) m)"

text \<open>\<^verbatim>\<open>addAll\<close> on a hash set kept as a duplicate-free list.\<close>

definition addAll :: "int list \<Rightarrow> int list \<Rightarrow> int list" where
  "addAll xs ys = foldl (\<lambda>acc y. if y \<in> set acc then acc else acc @ [y]) xs ys"

text \<open>\<^verbatim>\<open>idToTable\<close>: the tables of \<^verbatim>\<open>tableList\<close> by id, a later one replacing an
  earlier one of the same id.\<close>

definition tableListById :: "OlapTable list \<Rightarrow> int \<Rightarrow> OlapTable option" where
  "tableListById tableList = map_of (rev (map (\<lambda>t. (tableId t, t)) tableList))"

text \<open>The first loop of \<^verbatim>\<open>checkCommitStatus\<close>, over the reported
  \<open>(tablet id, backend id)\<close> pairs: it fills \<^verbatim>\<open>tableToPartition\<close> and
  \<^verbatim>\<open>tabletToBackends\<close>.\<close>

fun collectCommitInfos ::
  "Env \<Rightarrow> (int \<Rightarrow> OlapTable option) \<Rightarrow> (int \<times> int) list
     \<Rightarrow> (int \<times> int list) list \<times> (int \<times> int list) list
     \<Rightarrow> Exception + (int \<times> int list) list \<times> (int \<times> int list) list" where
  "collectCommitInfos env idt [] acc = Inr acc"
| "collectCommitInfos env idt ((tablet_id, backend_id) # rest) (tableToPartition, tabletToBackends) =
     (case tabletMetaOf env tablet_id of
        None \<Rightarrow> collectCommitInfos env idt rest (tableToPartition, tabletToBackends)
      | Some tabletMeta \<Rightarrow>
          (case idt (tmTableId tabletMeta) of
             None \<Rightarrow> collectCommitInfos env idt rest (tableToPartition, tabletToBackends)
           | Some tbl \<Rightarrow>
               if tableState tbl = Table_RESTORE then Inl LoadException
               else (case getPartition tbl (tmPartitionId tabletMeta) of
                       None \<Rightarrow>
                         collectCommitInfos env idt rest (tableToPartition, tabletToBackends)
                     | Some _ \<Rightarrow>
                         collectCommitInfos env idt rest
                           (addToSetMap tableToPartition (tmTableId tabletMeta)
                              (tmPartitionId tabletMeta),
                            addToSetMap tabletToBackends tablet_id backend_id))))"

text \<open>Modelled from the spec: \<^verbatim>\<open>Tablet.getBackendIds\<close> is outside the sources; the spec
  has the loop run over each backend that hosts a replica of the tablet.\<close>

definition getBackendIds :: "Tablet \<Rightarrow> int list" where
  "getBackendIds tablet = remdups (map backendId (replicas tablet))"

text \<open>The loop over \<^verbatim>\<open>tabletBackends\<close> for one tablet. \<open>commitBackends\<close> is
  \<^verbatim>\<open>tabletToBackends.get(tabletId)\<close>, \<open>None\<close> for \<^verbatim>\<open>null\<close>.\<close>

fun checkTabletBackends ::
  "Env \<Rightarrow> int \<Rightarrow> int list option \<Rightarrow> int list \<Rightarrow> ReplicaCheck \<Rightarrow> Exception + ReplicaCheck" where
  "checkTabletBackends env tablet_id commitBackends [] c = Inr c"
| "checkTabletBackends env tablet_id commitBackends (tabletBackend # rest) c =
     (case replicaOf env tablet_id tabletBackend of
        None \<Rightarrow>
          Inl (TransactionCommitFailedException (CouldNotFindReplica tablet_id tabletBackend))
      | Some replica \<Rightarrow>
          checkTabletBackends env tablet_id commitBackends rest
            (if (case commitBackends of None \<Rightarrow> False | Some bs \<Rightarrow> tabletBackend \<in> set bs)
             then (if lastFailedVersion replica < 0
                   then c\<lparr>tabletSuccReplicas := tabletSuccReplicas c @ [replica]\<rparr>
                   else c\<lparr>tabletVersionFailedReplicas :=
                            tabletVersionFailedReplicas c @ [replica]\<rparr>)
             else c\<lparr>tabletWriteFailedReplicas := tabletWriteFailedReplicas c @ [replica],
                    errorReplicaIds := insert (replicaId replica) (errorReplicaIds c)\<rparr>))"

text \<open>What the loops carry from tablet to tablet: the error replica ids and the backends
  involved.\<close>

record CommitCheck =
  cErrorReplicaIds :: "int set"
  cTotalInvolvedBackends :: "int list"

definition checkTabletCommit ::
  "Env \<Rightarrow> int \<Rightarrow> (int \<times> int list) list \<Rightarrow> CommitCheck \<Rightarrow> Tablet
     \<Rightarrow> Exception + CommitCheck" where
  "checkTabletCommit env required tabletToBackends cc tablet =
     (let tabletBackends = getBackendIds tablet
      in case checkTabletBackends env (tabletId tablet) (map_of tabletToBackends (tabletId tablet))
                tabletBackends
                \<lparr>errorReplicaIds = cErrorReplicaIds cc, tabletSuccReplicas = [],
                 tabletWriteFailedReplicas = [], tabletVersionFailedReplicas = []\<rparr> of
           Inl e \<Rightarrow> Inl e
         | Inr c \<Rightarrow>
             if int (length (tabletSuccReplicas c)) < required
             then Inl (TabletQuorumFailedException (tabletId tablet)
                         (int (length (tabletSuccReplicas c))) required)
             else Inr \<lparr>cErrorReplicaIds = errorReplicaIds c,
                       cTotalInvolvedBackends =
                         addAll (cTotalInvolvedBackends cc) tabletBackends\<rparr>)"

fun checkTabletsCommit ::
  "Env \<Rightarrow> int \<Rightarrow> (int \<times> int list) list \<Rightarrow> CommitCheck \<Rightarrow> Tablet list
     \<Rightarrow> Exception + CommitCheck" where
  "checkTabletsCommit env required tabletToBackends cc [] = Inr cc"
| "checkTabletsCommit env required tabletToBackends cc (tablet # rest) =
     (case checkTabletCommit env required tabletToBackends cc tablet of
        Inl e \<Rightarrow> Inl e
      | Inr cc' \<Rightarrow> checkTabletsCommit env required tabletToBackends cc' rest)"

text \<open>The loop over \<^verbatim>\<open>table.getAllPartitions()\<close>. The flag tells whether
  \<^verbatim>\<open>prolongPublishTimeout\<close> was called on the transaction; an exception leaves the
  call with the transaction object already prolonged, so the flag is returned beside it.\<close>

fun checkPartitionsCommit ::
  "Env \<Rightarrow> TransactionState \<Rightarrow> OlapTable \<Rightarrow> int list \<Rightarrow> (int \<times> int list) list
     \<Rightarrow> CommitCheck \<Rightarrow> bool \<Rightarrow> Partition list \<Rightarrow> Exception option \<times> CommitCheck \<times> bool" where
  "checkPartitionsCommit env txn tbl partitionIds tabletToBackends cc prolonged [] =
     (None, cc, prolonged)"
| "checkPartitionsCommit env txn tbl partitionIds tabletToBackends cc prolonged (part # rest) =
     (if partitionId part \<notin> set partitionIds
      then checkPartitionsCommit env txn tbl partitionIds tabletToBackends cc prolonged rest
      else case selectIndices txn (tableId tbl) part of
             Inl e \<Rightarrow> (Some e, cc, prolonged)
           | Inr allIndices \<Rightarrow>
               (let prolonged1 =
                      (prolonged \<or> tableState tbl = Table_ROLLUP
                         \<or> tableState tbl = Table_SCHEMA_CHANGE)
                in case checkTabletsCommit env (loadRequiredReplicaNum part) tabletToBackends cc
                          (concat (map tablets allIndices)) of
                     Inl e \<Rightarrow> (Some e, cc, prolonged1)
                   | Inr cc2 \<Rightarrow>
                       checkPartitionsCommit env txn tbl partitionIds tabletToBackends cc2
                         prolonged1 rest))"

fun checkTablesCommit ::
  "Env \<Rightarrow> Database \<Rightarrow> TransactionState \<Rightarrow> (int \<times> int list) list \<Rightarrow> CommitCheck \<Rightarrow> bool
     \<Rightarrow> (int \<times> int list) list \<Rightarrow> Exception option \<times> CommitCheck \<times> bool" where
  "checkTablesCommit env db txn tabletToBackends cc prolonged [] = (None, cc, prolonged)"
| "checkTablesCommit env db txn tabletToBackends cc prolonged ((table_id, partitionIds) # rest) =
     (case getTableNullable db table_id of
        None \<Rightarrow> (Some MetaNotFoundException, cc, prolonged)
      | Some tbl \<Rightarrow>
          (case checkPartitionsCommit env txn tbl partitionIds tabletToBackends cc prolonged
                  (allPartitions tbl) of
             (Some e, cc1, prolonged1) \<Rightarrow> (Some e, cc1, prolonged1)
           | (None, cc1, prolonged1) \<Rightarrow>
               checkTablesCommit env db txn tabletToBackends cc1 prolonged1 rest))"

text \<open>\<^verbatim>\<open>checkCommitStatus\<close>. The results: the exception if one was thrown, the transaction
  object as the call left it, and the three out-parameters \<^verbatim>\<open>errorReplicaIds\<close>,
  \<^verbatim>\<open>tableToPartition\<close> and \<^verbatim>\<open>totalInvolvedBackends\<close>.\<close>

record CommitStatus =
  csThrown :: "Exception option"
  csTxn :: TransactionState
  csErrorReplicaIds :: "int set"
  csTableToPartition :: "(int \<times> int list) list"
  csTotalInvolvedBackends :: "int list"

definition checkCommitStatus ::
  "Env \<Rightarrow> Database option \<Rightarrow> OlapTable list \<Rightarrow> TransactionState \<Rightarrow> (int \<times> int) list
     \<Rightarrow> nat option \<Rightarrow> CommitStatus" where
  "checkCommitStatus env dbOpt tableList txn tabletCommitInfos attachment =
     (case dbOpt of
        None \<Rightarrow>
          \<lparr>csThrown = Some MetaNotFoundException, csTxn = txn, csErrorReplicaIds = {},
           csTableToPartition = [], csTotalInvolvedBackends = []\<rparr>
      | Some db \<Rightarrow>
          (let txn1 = (case attachment of
                         None \<Rightarrow> txn
                       | Some a \<Rightarrow> txn\<lparr>txnCommitAttachment := Some a\<rparr>)
           in case collectCommitInfos env (tableListById tableList) tabletCommitInfos ([], []) of
                Inl e \<Rightarrow>
                  \<lparr>csThrown = Some e, csTxn = txn1, csErrorReplicaIds = {},
                   csTableToPartition = [], csTotalInvolvedBackends = []\<rparr>
              | Inr (tableToPartition, tabletToBackends) \<Rightarrow>
                  (case checkTablesCommit env db txn1 tabletToBackends
                          \<lparr>cErrorReplicaIds = {}, cTotalInvolvedBackends = []\<rparr> False
                          tableToPartition of
                     (thrown, cc, prolonged) \<Rightarrow>
                       \<lparr>csThrown = thrown,
                        csTxn = (if prolonged then txn1\<lparr>publishTimeoutProlonged := True\<rparr>
                                 else txn1),
                        csErrorReplicaIds = cErrorReplicaIds cc,
                        csTableToPartition = tableToPartition,
                        csTotalInvolvedBackends = cTotalInvolvedBackends cc\<rparr>)))"

text \<open>The claim's words for the commit check. The class of the replica that a backend hosts:
  success when the backend is among the commit backends of the tablet and the replica has no
  prior failure, version-failed when it is among them and the replica has one, write-failed
  when it is not among them.\<close>

definition spec_commit_class :: "int list option \<Rightarrow> int \<Rightarrow> Replica \<Rightarrow> ReplicaClass" where
  "spec_commit_class commitBackends be replica =
     (if (case commitBackends of None \<Rightarrow> False | Some bs \<Rightarrow> be \<in> set bs)
      then (if lastFailedVersion replica < 0 then Success else VersionFailed)
      else WriteFailed)"

text \<open>The replicas of a tablet with their backends, as the inverted index has them; whether
  it has one for every hosting backend; the number of success replicas; the ids of the
  write-failed ones.\<close>

definition spec_hosted_replicas :: "Env \<Rightarrow> Tablet \<Rightarrow> (int \<times> Replica) list" where
  "spec_hosted_replicas env tablet =
     List.map_filter (\<lambda>be. map_option (Pair be) (replicaOf env (tabletId tablet) be))
       (getBackendIds tablet)"

definition spec_replicas_found :: "Env \<Rightarrow> Tablet \<Rightarrow> bool" where
  "spec_replicas_found env tablet =
     list_all (\<lambda>be. replicaOf env (tabletId tablet) be \<noteq> None) (getBackendIds tablet)"

definition spec_commit_succ_num :: "Env \<Rightarrow> (int \<times> int list) list \<Rightarrow> Tablet \<Rightarrow> int" where
  "spec_commit_succ_num env tabletToBackends tablet =
     int (length (filter
       (\<lambda>(be, r). spec_commit_class (map_of tabletToBackends (tabletId tablet)) be r = Success)
       (spec_hosted_replicas env tablet)))"

definition spec_write_failed_ids :: "Env \<Rightarrow> (int \<times> int list) list \<Rightarrow> Tablet \<Rightarrow> int set" where
  "spec_write_failed_ids env tabletToBackends tablet =
     {replicaId r | be r. (be, r) \<in> set (spec_hosted_replicas env tablet)
        \<and> spec_commit_class (map_of tabletToBackends (tabletId tablet)) be r = WriteFailed}"

text \<open>The tablets the check visits, each with the number of replicas its partition requires:
  for every table and partition of \<^verbatim>\<open>tableToPartition\<close>, the tablets of the indices
  that the transaction covers. \<open>None\<close> when a table is missing or the indices of a
  partition cannot be selected.\<close>

fun spec_partition_tablets ::
  "TransactionState \<Rightarrow> OlapTable \<Rightarrow> int list \<Rightarrow> Partition list \<Rightarrow> (int \<times> Tablet) list option" where
  "spec_partition_tablets txn tbl partitionIds [] = Some []"
| "spec_partition_tablets txn tbl partitionIds (part # rest) =
     (if partitionId part \<notin> set partitionIds then spec_partition_tablets txn tbl partitionIds rest
      else case selectIndices txn (tableId tbl) part of
             Inl e \<Rightarrow> None
           | Inr allIndices \<Rightarrow>
               (case spec_partition_tablets txn tbl partitionIds rest of
                  None \<Rightarrow> None
                | Some ts \<Rightarrow>
                    Some (map (Pair (loadRequiredReplicaNum part)) (concat (map tablets allIndices))
                            @ ts)))"

fun spec_checked_tablets ::
  "Database \<Rightarrow> TransactionState \<Rightarrow> (int \<times> int list) list \<Rightarrow> (int \<times> Tablet) list option" where
  "spec_checked_tablets db txn [] = Some []"
| "spec_checked_tablets db txn ((table_id, partitionIds) # rest) =
     (case getTableNullable db table_id of
        None \<Rightarrow> None
      | Some tbl \<Rightarrow>
          (case spec_partition_tablets txn tbl partitionIds (allPartitions tbl) of
             None \<Rightarrow> None
           | Some ts \<Rightarrow>
               (case spec_checked_tablets db txn rest of
                  None \<Rightarrow> None
                | Some ts' \<Rightarrow> Some (ts @ ts'))))"

text \<open>The catalog of the commit examples: table 3 with partition 30 (two replicas required)
  and two materialized indices, 300 with tablet 3000 (replicas 31, 32, 33 on backends 1, 2,
  3) and 301 with tablet 3001 (replicas 34, 35 on backends 1, 2).\<close>

definition tablet3000 :: Tablet where
  "tablet3000 =
     \<lparr>tabletId = 3000,
      replicas = [replica0\<lparr>replicaId := 31, backendId := 1\<rparr>,
                  replica0\<lparr>replicaId := 32, backendId := 2\<rparr>,
                  replica0\<lparr>replicaId := 33, backendId := 3\<rparr>]\<rparr>"

definition tablet3001 :: Tablet where
  "tablet3001 =
     \<lparr>tabletId = 3001,
      replicas = [replica0\<lparr>replicaId := 34, backendId := 1\<rparr>,
                  replica0\<lparr>replicaId := 35, backendId := 2\<rparr>]\<rparr>"

definition partition30 :: Partition where
  "partition30 =
     \<lparr>partitionId = 30, visibleVersion = 4, visibleVersionTime = 0, nextVersion = 5,
      loadRequiredReplicaNum = 2,
      materializedIndices = [\<lparr>indexId = 300, tablets = [tablet3000]\<rparr>,
                             \<lparr>indexId = 301, tablets = [tablet3001]\<rparr>]\<rparr>"

definition table3 :: OlapTable where
  "table3 = \<lparr>tableId = 3, tableState = Table_NORMAL, allPartitions = [partition30]\<rparr>"

definition dbCommit :: Database where
  "dbCommit = db0\<lparr>idToTable := (\<lambda>_. None)(3 := Some table3)\<rparr>"

definition envCommit :: Env where
  "envCommit =
     env0\<lparr>tabletMetaOf :=
            (\<lambda>t. if t = 3000 \<or> t = 3001 then Some \<lparr>tmTableId = 3, tmPartitionId = 30\<rparr>
                  else None),
          replicaOf :=
            (\<lambda>t be. if t = 3000 then find (\<lambda>r. backendId r = be) (replicas tablet3000)
                     else if t = 3001 then find (\<lambda>r. backendId r = be) (replicas tablet3001)
                     else None)\<rparr>"

section \<open>The per-database transaction manager\<close>

datatype EditLogEntry =
  LogInsertTransactionState TransactionState
  | LogBatchRemoveTransactions int int int

text \<open>
  The manager's fields. A \<^verbatim>\<open>TransactionState\<close> is a mutable object that the maps and
  the deques share by reference; an object is created by \<^verbatim>\<open>beginTransaction\<close> only,
  under a new id, and a map entry's key is its object's id. So the objects live in a store
  \<open>txnObjects\<close> keyed by transaction id, and the maps and deques hold ids: a map's
  \<^verbatim>\<open>get(id)\<close> is the stored object when the id is among the map's keys.
  \<open>idGenerator\<close> is the last id handed out. Modelled from the spec:
  \<^verbatim>\<open>TransactionIdGenerator\<close> is outside the sources; the spec has it monotonic.
\<close>

record DatabaseTransactionMgr =
  dbId :: int
  txnObjects :: "int \<Rightarrow> TransactionState option"
  idToRunningTransactionState :: "int list"
  idToFinalStatusTransactionState :: "int list"
  finalStatusTransactionStateDequeShort :: "int list"
  finalStatusTransactionStateDequeLong :: "int list"
  labelToTxnIds :: "string \<Rightarrow> int list option"
  runningTxnNums :: int
  runningRoutineLoadTxnNums :: int
  idGenerator :: int
  usedQuotaDataBytes :: int
  editLog :: "EditLogEntry list"
  clearTransactionTasks :: "(int \<times> int) list"

definition MAX_REMOVE_TXN_PER_ROUND :: int where
  "MAX_REMOVE_TXN_PER_ROUND = 10000"

definition runningGet :: "DatabaseTransactionMgr \<Rightarrow> int \<Rightarrow> TransactionState option" where
  "runningGet s txnId =
     (if txnId \<in> set (idToRunningTransactionState s) then txnObjects s txnId else None)"

definition finalGet :: "DatabaseTransactionMgr \<Rightarrow> int \<Rightarrow> TransactionState option" where
  "finalGet s txnId =
     (if txnId \<in> set (idToFinalStatusTransactionState s) then txnObjects s txnId else None)"

definition unprotectedGetTransactionState ::
  "DatabaseTransactionMgr \<Rightarrow> int \<Rightarrow> TransactionState option" where
  "unprotectedGetTransactionState s txnId =
     (case runningGet s txnId of
        Some t \<Rightarrow> Some t
      | None \<Rightarrow> finalGet s txnId)"

definition unprotectedGetTxnIdsByLabel :: "DatabaseTransactionMgr \<Rightarrow> string \<Rightarrow> int list option" where
  "unprotectedGetTxnIdsByLabel s l = labelToTxnIds s l"

text \<open>A setter call on a transaction object: the object's new value in the store.\<close>

definition storeTxn :: "DatabaseTransactionMgr \<Rightarrow> TransactionState \<Rightarrow> DatabaseTransactionMgr" where
  "storeTxn s t = s\<lparr>txnObjects := (txnObjects s)(transactionId t \<mapsto> t)\<rparr>"

definition updateTxnLabels ::
  "DatabaseTransactionMgr \<Rightarrow> TransactionState \<Rightarrow> DatabaseTransactionMgr" where
  "updateTxnLabels s t =
     s\<lparr>labelToTxnIds :=
         (labelToTxnIds s)(label t \<mapsto>
            List.insert (transactionId t)
              (case labelToTxnIds s (label t) of None \<Rightarrow> [] | Some ids \<Rightarrow> ids))\<rparr>"

definition countRunning :: "DatabaseTransactionMgr \<Rightarrow> TransactionState \<Rightarrow> int \<Rightarrow> DatabaseTransactionMgr" where
  "countRunning s t d =
     (if sourceType t = ROUTINE_LOAD_TASK
      then s\<lparr>runningRoutineLoadTxnNums := runningRoutineLoadTxnNums s + d\<rparr>
      else s\<lparr>runningTxnNums := runningTxnNums s + d\<rparr>)"

text \<open>\<^verbatim>\<open>unprotectUpsertTransactionState\<close>, called with the object \<open>t\<close> as its caller
  has set it.\<close>

definition unprotectUpsertTransactionState ::
  "DatabaseTransactionMgr \<Rightarrow> TransactionState \<Rightarrow> bool \<Rightarrow> DatabaseTransactionMgr" where
  "unprotectUpsertTransactionState s t isReplay =
     (let txnId = transactionId t;
          s0 = storeTxn s t;
          s1 = (if \<not> isReplay \<and> (transactionStatus t \<noteq> PREPARE \<or> sourceType t = FRONTEND)
                then s0\<lparr>editLog := editLog s0 @ [LogInsertTransactionState t]\<rparr> else s0);
          s2 = (if \<not> isFinalStatus (transactionStatus t) then
                  (if txnId \<notin> set (idToRunningTransactionState s1)
                   then countRunning
                          (s1\<lparr>idToRunningTransactionState :=
                                idToRunningTransactionState s1 @ [txnId]\<rparr>) t 1
                   else s1)
                else
                  (let s3 = (if txnId \<in> set (idToRunningTransactionState s1)
                             then countRunning
                                    (s1\<lparr>idToRunningTransactionState :=
                                          removeAll txnId (idToRunningTransactionState s1)\<rparr>)
                                    t (- 1)
                             else s1);
                       s4 = s3\<lparr>idToFinalStatusTransactionState :=
                                 List.insert txnId (idToFinalStatusTransactionState s3)\<rparr>
                   in if isShortTxn t
                      then s4\<lparr>finalStatusTransactionStateDequeShort :=
                                finalStatusTransactionStateDequeShort s4 @ [txnId]\<rparr>
                      else s4\<lparr>finalStatusTransactionStateDequeLong :=
                                finalStatusTransactionStateDequeLong s4 @ [txnId]\<rparr>))
      in updateTxnLabels s2 t)"

subsection \<open>beginTransaction\<close>

text \<open>\<^verbatim>\<open>checkDatabaseDataQuota\<close>: the used quota is read from the database once and
  kept.\<close>

definition checkDatabaseDataQuota ::
  "Database \<Rightarrow> DatabaseTransactionMgr \<Rightarrow> Exception option \<times> DatabaseTransactionMgr" where
  "checkDatabaseDataQuota db s =
     (let s1 = (if usedQuotaDataBytes s = - 1
                then s\<lparr>usedQuotaDataBytes := usedDataQuotaWithLock db\<rparr> else s)
      in if usedQuotaDataBytes s1 \<ge> dataQuota db then (Some QuotaExceedException, s1)
         else (None, s1))"

definition checkRunningTxnExceedLimit ::
  "Database \<Rightarrow> DatabaseTransactionMgr \<Rightarrow> LoadJobSourceType \<Rightarrow> Exception option" where
  "checkRunningTxnExceedLimit db s src =
     (if src = ROUTINE_LOAD_TASK then None
      else if runningTxnNums s \<ge> transactionQuotaSize db then Some BeginTransactionException
      else None)"

text \<open>The transactions of a label that are not ABORTED, as the loop over
  \<^verbatim>\<open>existingTxnIds\<close> collects them; \<^verbatim>\<open>Preconditions.checkNotNull(txn)\<close> is the
  \<open>Inl\<close> result.\<close>

fun notAbortedTxnsOf ::
  "DatabaseTransactionMgr \<Rightarrow> int list \<Rightarrow> Exception + TransactionState list" where
  "notAbortedTxnsOf s [] = Inr []"
| "notAbortedTxnsOf s (txnId # rest) =
     (case unprotectedGetTransactionState s txnId of
        None \<Rightarrow> Inl NullPointerException
      | Some txn \<Rightarrow>
          (case notAbortedTxnsOf s rest of
             Inl e \<Rightarrow> Inl e
           | Inr txns \<Rightarrow>
               Inr (if transactionStatus txn \<noteq> ABORTED then txn # txns else txns)))"

text \<open>The label check made under the write lock: \<open>None\<close> when the label is free.\<close>

definition checkLabel ::
  "DatabaseTransactionMgr \<Rightarrow> string \<Rightarrow> TUniqueId option \<Rightarrow> Exception option" where
  "checkLabel s l reqId =
     (case unprotectedGetTxnIdsByLabel s l of
        None \<Rightarrow> None
      | Some existingTxnIds \<Rightarrow>
          if existingTxnIds = [] then None
          else (case notAbortedTxnsOf s existingTxnIds of
                  Inl e \<Rightarrow> Some e
                | Inr notAbortedTxns \<Rightarrow>
                    if length notAbortedTxns > 1 then Some IllegalStateException
                    else (case notAbortedTxns of
                            [] \<Rightarrow> None
                          | notAbortedTxn # _ \<Rightarrow>
                              if reqId \<noteq> None
                                 \<and> (transactionStatus notAbortedTxn = PREPARE
                                      \<or> transactionStatus notAbortedTxn = PRECOMMITTED)
                                 \<and> requestId notAbortedTxn \<noteq> None
                                 \<and> requestId notAbortedTxn = reqId
                              then Some (DuplicatedRequestException (transactionId notAbortedTxn))
                              else Some (LabelAlreadyUsedException (transactionId notAbortedTxn)))))"

text \<open>Modelled from the spec: the constructor of \<^verbatim>\<open>TransactionState\<close> is outside the
  sources. A new transaction is in PREPARE, with the arguments of the call, no commit infos,
  no error replicas and no time but the prepare time, which the caller sets.\<close>

definition newTransactionState ::
  "Env \<Rightarrow> int list \<Rightarrow> int \<Rightarrow> string \<Rightarrow> TUniqueId option \<Rightarrow> LoadJobSourceType \<Rightarrow> int
     \<Rightarrow> TransactionState" where
  "newTransactionState env tableIds tid l reqId src timeoutMillis =
     \<lparr>transactionId = tid, label = l, requestId = reqId, sourceType = src,
      transactionStatus = PREPARE, tableIdList = tableIds, prepareTime = - 1,
      preCommitTime = - 1, commitTime = - 1, firstPublishVersionTime = - 1,
      lastPublishLogTime = 0, finishTime = - 1, timeoutMs = timeoutMillis, reason = [],
      errMsg = None, errorReplicas = {}, idToTableCommitInfos = [], publishVersionTasks = [],
      loadedTblIndexes = [], txnCommitAttachment = None, publishTimeoutProlonged = False,
      isPartialUpdate = False, isShortTxn = isShortSource env src\<rparr>"

definition beginTransaction ::
  "Env \<Rightarrow> Database option \<Rightarrow> DatabaseTransactionMgr \<Rightarrow> int list \<Rightarrow> string
     \<Rightarrow> TUniqueId option \<Rightarrow> LoadJobSourceType \<Rightarrow> int
     \<Rightarrow> int Outcome \<times> DatabaseTransactionMgr" where
  "beginTransaction env dbOpt s tableIds l reqId src timeoutSecond =
     (case dbOpt of
        None \<Rightarrow> (Thrown MetaNotFoundException, s)
      | Some db \<Rightarrow>
          if \<not> checkDatabaseOk env then (Thrown AnalysisException, s)
          else (case checkDatabaseDataQuota db s of
                  (Some e, s1) \<Rightarrow> (Thrown e, s1)
                | (None, s1) \<Rightarrow>
                    if \<not> labelFormatOk env l then (Thrown AnalysisException, s1)
                    else (case checkLabel s1 l reqId of
                            Some e \<Rightarrow> (Thrown e, s1)
                          | None \<Rightarrow>
                              (case checkRunningTxnExceedLimit db s1 src of
                                 Some e \<Rightarrow> (Thrown e, s1)
                               | None \<Rightarrow>
                                   (let tid = idGenerator s1 + 1;
                                        s2 = s1\<lparr>idGenerator := tid\<rparr>;
                                        txn = (newTransactionState env tableIds tid l reqId src
                                                 (timeoutSecond * 1000))
                                                \<lparr>prepareTime := currentTimeMillis env\<rparr>
                                    in (Returned tid,
                                        unprotectUpsertTransactionState s2 txn False))))))"

subsection \<open>abortTransaction\<close>

definition unprotectAbortTransaction ::
  "Env \<Rightarrow> DatabaseTransactionMgr \<Rightarrow> int \<Rightarrow> string \<Rightarrow> bool Outcome \<times> DatabaseTransactionMgr" where
  "unprotectAbortTransaction env s txnId why =
     (case unprotectedGetTransactionState s txnId of
        None \<Rightarrow> (Thrown TransactionNotFoundException, s)
      | Some txn \<Rightarrow>
          if transactionStatus txn = ABORTED then (Thrown TransactionNotFoundException, s)
          else if transactionStatus txn = COMMITTED \<or> transactionStatus txn = VISIBLE
            then (Thrown UserException, s)
          else (Returned True,
                unprotectUpsertTransactionState s
                  (txn\<lparr>finishTime := currentTimeMillis env, reason := why,
                       transactionStatus := ABORTED\<rparr>) False))"

text \<open>\<^verbatim>\<open>clearBackendTransactions\<close>: one task per backend, sent as a batch once more than
  twice as many tasks as backends have gathered.\<close>

definition clearBackendTransactions ::
  "Env \<Rightarrow> DatabaseTransactionMgr \<Rightarrow> int \<Rightarrow> DatabaseTransactionMgr" where
  "clearBackendTransactions env s txnId =
     (let tasks = clearTransactionTasks s @ map (\<lambda>beId. (beId, txnId)) (allBackendIds env)
      in if length tasks > length (allBackendIds env) * 2
         then s\<lparr>clearTransactionTasks := []\<rparr>
         else s\<lparr>clearTransactionTasks := tasks\<rparr>)"

definition abortTransaction ::
  "Env \<Rightarrow> DatabaseTransactionMgr \<Rightarrow> int \<Rightarrow> string \<Rightarrow> nat option
     \<Rightarrow> unit Outcome \<times> DatabaseTransactionMgr" where
  "abortTransaction env s txnId why attachment =
     (if txnId < 0 then (Returned (), s)
      else case runningGet s txnId of
             None \<Rightarrow> (Thrown TransactionNotFoundException, s)
           | Some txn \<Rightarrow>
               (let s1 = (case attachment of
                            None \<Rightarrow> s
                          | Some a \<Rightarrow> storeTxn s (txn\<lparr>txnCommitAttachment := Some a\<rparr>))
                in case unprotectAbortTransaction env s1 txnId why of
                     (Thrown e, s2) \<Rightarrow> (Thrown e, s2)
                   | (Returned txnOperated, s2) \<Rightarrow>
                       (Returned (),
                        if txnOperated
                           \<and> map_option transactionStatus (txnObjects s2 txnId) = Some ABORTED
                        then clearBackendTransactions env s2 txnId else s2)))"

subsection \<open>commitTransaction and preCommitTransaction2PC\<close>

text \<open>\<^verbatim>\<open>Map.put\<close> on an association list.\<close>

definition mapPut :: "(int \<times> 'v) list \<Rightarrow> int \<Rightarrow> 'v \<Rightarrow> (int \<times> 'v) list" where
  "mapPut m k v =
     (if k \<in> fst ` set m then map (\<lambda>(k', v'). if k' = k then (k', v) else (k', v')) m
      else m @ [(k, v)])"

text \<open>The commit infos that \<^verbatim>\<open>unprotectedCommitTransaction\<close> builds, each partition at
  its next version. A table or a partition that the database no longer has makes the Java
  dereference \<^verbatim>\<open>null\<close>; the infos put so far stay in the transaction object. The
  textual partition range of a commit info is not modelled.\<close>

fun buildPartitionCommitInfos ::
  "OlapTable \<Rightarrow> int \<Rightarrow> (int \<times> PartitionCommitInfo) list \<Rightarrow> int list
     \<Rightarrow> Exception + (int \<times> PartitionCommitInfo) list" where
  "buildPartitionCommitInfos tbl now pcis [] = Inr pcis"
| "buildPartitionCommitInfos tbl now pcis (pid # rest) =
     (case getPartition tbl pid of
        None \<Rightarrow> Inl NullPointerException
      | Some part \<Rightarrow>
          buildPartitionCommitInfos tbl now
            (mapPut pcis pid
               \<lparr>pciPartitionId = pid, pciVersion = nextVersion part, pciVersionTime = now\<rparr>)
            rest)"

fun buildTableCommitInfos ::
  "Database \<Rightarrow> int \<Rightarrow> (int \<times> TableCommitInfo) list \<Rightarrow> (int \<times> int list) list
     \<Rightarrow> Exception option \<times> (int \<times> TableCommitInfo) list" where
  "buildTableCommitInfos db now infos [] = (None, infos)"
| "buildTableCommitInfos db now infos ((table_id, partitionIds) # rest) =
     (case getTableNullable db table_id of
        None \<Rightarrow> (Some NullPointerException, infos)
      | Some tbl \<Rightarrow>
          (case buildPartitionCommitInfos tbl now [] partitionIds of
             Inl e \<Rightarrow> (Some e, infos)
           | Inr pcis \<Rightarrow>
               buildTableCommitInfos db now
                 (mapPut infos table_id \<lparr>tciTableId = table_id, idToPartitionCommitInfo = pcis\<rparr>)
                 rest))"

text \<open>\<^verbatim>\<open>addPublishVersionTask(backendId, null)\<close> for every involved backend.\<close>

definition addPublishPlaceholders :: "TransactionState \<Rightarrow> int list \<Rightarrow> TransactionState" where
  "addPublishPlaceholders txn backends =
     txn\<lparr>publishVersionTasks := foldl (\<lambda>m be. mapPut m be None) (publishVersionTasks txn) backends\<rparr>"

definition unprotectedCommitTransaction ::
  "Env \<Rightarrow> DatabaseTransactionMgr \<Rightarrow> TransactionState \<Rightarrow> int set \<Rightarrow> (int \<times> int list) list
     \<Rightarrow> int list \<Rightarrow> Database \<Rightarrow> Exception option \<times> DatabaseTransactionMgr" where
  "unprotectedCommitTransaction env s txn errs tableToPartition totalInvolvedBackends db =
     (if transactionStatus txn \<noteq> PREPARE then (None, s)
      else
        (let t1 = txn\<lparr>commitTime := currentTimeMillis env, transactionStatus := COMMITTED,
                      errorReplicas := errs\<rparr>
         in case buildTableCommitInfos db (currentTimeMillis env) (idToTableCommitInfos t1)
                   tableToPartition of
              (Some e, infos) \<Rightarrow> (Some e, storeTxn s (t1\<lparr>idToTableCommitInfos := infos\<rparr>))
            | (None, infos) \<Rightarrow>
                (let t2 = t1\<lparr>idToTableCommitInfos := infos\<rparr>;
                     s1 = unprotectUpsertTransactionState s t2 False
                 in (None, storeTxn s1 (addPublishPlaceholders t2 totalInvolvedBackends)))))"

text \<open>\<^verbatim>\<open>unprotectedPreCommitTransaction2PC\<close>: the same with the version left at
  \<open>-1\<close>; only the table is dereferenced.\<close>

fun buildPreCommitInfos ::
  "Database \<Rightarrow> (int \<times> TableCommitInfo) list \<Rightarrow> (int \<times> int list) list
     \<Rightarrow> Exception option \<times> (int \<times> TableCommitInfo) list" where
  "buildPreCommitInfos db infos [] = (None, infos)"
| "buildPreCommitInfos db infos ((table_id, partitionIds) # rest) =
     (case getTableNullable db table_id of
        None \<Rightarrow> (Some NullPointerException, infos)
      | Some tbl \<Rightarrow>
          buildPreCommitInfos db
            (mapPut infos table_id
               \<lparr>tciTableId = table_id,
                idToPartitionCommitInfo =
                  foldl (\<lambda>m pid. mapPut m pid
                           \<lparr>pciPartitionId = pid, pciVersion = - 1, pciVersionTime = - 1\<rparr>)
                    [] partitionIds\<rparr>)
            rest)"

definition unprotectedPreCommitTransaction2PC ::
  "Env \<Rightarrow> DatabaseTransactionMgr \<Rightarrow> TransactionState \<Rightarrow> int set \<Rightarrow> (int \<times> int list) list
     \<Rightarrow> int list \<Rightarrow> Database \<Rightarrow> Exception option \<times> DatabaseTransactionMgr" where
  "unprotectedPreCommitTransaction2PC env s txn errs tableToPartition totalInvolvedBackends db =
     (if transactionStatus txn \<noteq> PREPARE then (None, s)
      else
        (let t1 = txn\<lparr>preCommitTime := currentTimeMillis env, transactionStatus := PRECOMMITTED,
                      errorReplicas := errs\<rparr>
         in case buildPreCommitInfos db (idToTableCommitInfos t1) tableToPartition of
              (Some e, infos) \<Rightarrow> (Some e, storeTxn s (t1\<lparr>idToTableCommitInfos := infos\<rparr>))
            | (None, infos) \<Rightarrow>
                (let t2 = t1\<lparr>idToTableCommitInfos := infos\<rparr>;
                     s1 = unprotectUpsertTransactionState s t2 False
                 in (None, storeTxn s1 (addPublishPlaceholders t2 totalInvolvedBackends)))))"

text \<open>\<^verbatim>\<open>unprotectedCommitTransaction2PC\<close>: the entries of dropped tables and partitions
  are removed, the others get the partition's next version; the edit log is written, the
  indexes are not touched.\<close>

definition commit2PCPartitionInfos ::
  "OlapTable \<Rightarrow> int \<Rightarrow> (int \<times> PartitionCommitInfo) list \<Rightarrow> (int \<times> PartitionCommitInfo) list" where
  "commit2PCPartitionInfos tbl now pinfos =
     List.map_filter
       (\<lambda>(k, pci). case getPartition tbl (pciPartitionId pci) of
                     None \<Rightarrow> None
                   | Some part \<Rightarrow>
                       Some (k, pci\<lparr>pciVersion := nextVersion part, pciVersionTime := now\<rparr>))
       pinfos"

definition commit2PCTableInfos ::
  "Database \<Rightarrow> int \<Rightarrow> (int \<times> TableCommitInfo) list \<Rightarrow> (int \<times> TableCommitInfo) list" where
  "commit2PCTableInfos db now infos =
     List.map_filter
       (\<lambda>(k, tci). case getTableNullable db (tciTableId tci) of
                     None \<Rightarrow> None
                   | Some tbl \<Rightarrow>
                       Some (k, tci\<lparr>idToPartitionCommitInfo :=
                                      commit2PCPartitionInfos tbl now (idToPartitionCommitInfo tci)\<rparr>))
       infos"

definition unprotectedCommitTransaction2PC ::
  "Env \<Rightarrow> DatabaseTransactionMgr \<Rightarrow> TransactionState \<Rightarrow> Database \<Rightarrow> DatabaseTransactionMgr" where
  "unprotectedCommitTransaction2PC env s txn db =
     (if transactionStatus txn \<noteq> PRECOMMITTED then s
      else
        (let t1 = txn\<lparr>commitTime := currentTimeMillis env, transactionStatus := COMMITTED,
                      idToTableCommitInfos :=
                        commit2PCTableInfos db (currentTimeMillis env) (idToTableCommitInfos txn)\<rparr>;
             s1 = storeTxn s t1
         in s1\<lparr>editLog := editLog s1 @ [LogInsertTransactionState t1]\<rparr>))"

text \<open>Updates of the catalog, which the Java makes in place on the partition and replica
  objects: the first partition of the id in the table, every replica of the partition.\<close>

fun updateFirst :: "('a \<Rightarrow> bool) \<Rightarrow> ('a \<Rightarrow> 'a) \<Rightarrow> 'a list \<Rightarrow> 'a list" where
  "updateFirst P f [] = []"
| "updateFirst P f (x # xs) = (if P x then f x # xs else x # updateFirst P f xs)"

definition updateReplicas :: "(Replica \<Rightarrow> Replica) \<Rightarrow> Partition \<Rightarrow> Partition" where
  "updateReplicas f part =
     part\<lparr>materializedIndices :=
            map (\<lambda>i. i\<lparr>tablets := map (\<lambda>t. t\<lparr>replicas := map f (replicas t)\<rparr>) (tablets i)\<rparr>)
              (materializedIndices part)\<rparr>"

definition updatePartitionOf ::
  "Database \<Rightarrow> int \<Rightarrow> int \<Rightarrow> (Partition \<Rightarrow> Partition) \<Rightarrow> Database" where
  "updatePartitionOf db table_id pid f =
     (case getTableNullable db table_id of
        None \<Rightarrow> db
      | Some tbl \<Rightarrow>
          db\<lparr>idToTable := (idToTable db)(table_id \<mapsto>
                tbl\<lparr>allPartitions :=
                      updateFirst (\<lambda>p. partitionId p = pid) f (allPartitions tbl)\<rparr>)\<rparr>)"

definition forEachPartitionCommitInfo ::
  "(PartitionCommitInfo \<Rightarrow> Partition \<Rightarrow> Partition) \<Rightarrow> TransactionState \<Rightarrow> Database \<Rightarrow> Database" where
  "forEachPartitionCommitInfo f txn db =
     foldl (\<lambda>db1 (k, tci).
              foldl (\<lambda>db2 (k', pci). updatePartitionOf db2 (tciTableId tci) (pciPartitionId pci) (f pci))
                db1 (idToPartitionCommitInfo tci))
       db (idToTableCommitInfos txn)"

text \<open>\<^verbatim>\<open>updateCatalogAfterCommitted\<close>.\<close>

definition updateCatalogAfterCommitted :: "Env \<Rightarrow> TransactionState \<Rightarrow> Database \<Rightarrow> Database" where
  "updateCatalogAfterCommitted env txn db =
     forEachPartitionCommitInfo
       (\<lambda>pci part.
          (updateReplicas
             (\<lambda>replica. if replicaId replica \<in> errorReplicas txn
                         then updateLastFailedVersion env replica (pciVersion pci) else replica)
             part)
          \<lparr>nextVersion := nextVersion part + 1\<rparr>)
       txn db"

text \<open>The schema check of a partial update, on the tables of the commit infos for a
  two-phase commit and on \<^verbatim>\<open>tableList\<close> otherwise.\<close>

definition partialUpdateSchemaOk ::
  "Env \<Rightarrow> Database \<Rightarrow> TransactionState \<Rightarrow> OlapTable list \<Rightarrow> bool \<Rightarrow> bool" where
  "partialUpdateSchemaOk env db txn tableList is2PC =
     (if is2PC
      then list_all (\<lambda>(k, tci). case getTableNullable db (tciTableId tci) of
                                   None \<Rightarrow> True
                                 | Some tbl \<Rightarrow> checkSchemaCompatibility env txn tbl)
             (idToTableCommitInfos txn)
      else list_all (checkSchemaCompatibility env txn) tableList)"

definition commitTransaction ::
  "Env \<Rightarrow> Database option \<Rightarrow> DatabaseTransactionMgr \<Rightarrow> OlapTable list \<Rightarrow> int
     \<Rightarrow> (int \<times> int) list \<Rightarrow> nat option \<Rightarrow> bool
     \<Rightarrow> unit Outcome \<times> DatabaseTransactionMgr \<times> Database option" where
  "commitTransaction env dbOpt s tableList txnId tabletCommitInfos attachment is2PC =
     (case dbOpt of
        None \<Rightarrow> (Thrown MetaNotFoundException, s, dbOpt)
      | Some db \<Rightarrow>
          (case unprotectedGetTransactionState s txnId of
             None \<Rightarrow> (Thrown (TransactionCommitFailedException TxnNotFound), s, dbOpt)
           | Some txn \<Rightarrow>
               if transactionStatus txn = ABORTED
                 then (Thrown (TransactionCommitFailedException AlreadyAborted), s, dbOpt)
               else if transactionStatus txn = VISIBLE then
                 (if is2PC
                  then (Thrown (TransactionCommitFailedException AlreadyVisibleNotPreCommitted),
                        s, dbOpt)
                  else (Returned (), s, dbOpt))
               else if transactionStatus txn = COMMITTED then
                 (if is2PC
                  then (Thrown (TransactionCommitFailedException AlreadyCommittedNotPreCommitted),
                        s, dbOpt)
                  else (Returned (), s, dbOpt))
               else if is2PC \<and> transactionStatus txn = PREPARE
                 then (Thrown (TransactionCommitFailedException IsPrepareNotPreCommitted), s, dbOpt)
               else if isPartialUpdate txn \<and> \<not> partialUpdateSchemaOk env db txn tableList is2PC
                 then (Thrown (TransactionCommitFailedException SchemaIncompatible), s, dbOpt)
               else if is2PC then
                 (let s1 = unprotectedCommitTransaction2PC env s txn db
                  in case txnObjects s1 txnId of
                       None \<Rightarrow> (Returned (), s1, dbOpt)
                     | Some txn' \<Rightarrow>
                         (Returned (), s1, Some (updateCatalogAfterCommitted env txn' db)))
               else
                 (let cs = checkCommitStatus env dbOpt tableList txn tabletCommitInfos attachment;
                      s0 = storeTxn s (csTxn cs)
                  in case csThrown cs of
                       Some e \<Rightarrow> (Thrown e, s0, dbOpt)
                     | None \<Rightarrow>
                         (case unprotectedCommitTransaction env s0 (csTxn cs)
                                 (csErrorReplicaIds cs) (csTableToPartition cs)
                                 (csTotalInvolvedBackends cs) db of
                            (Some e, s1) \<Rightarrow> (Thrown e, s1, dbOpt)
                          | (None, s1) \<Rightarrow>
                              (case txnObjects s1 txnId of
                                 None \<Rightarrow> (Returned (), s1, dbOpt)
                               | Some txn' \<Rightarrow>
                                   (Returned (), s1,
                                    Some (updateCatalogAfterCommitted env txn' db)))))))"

definition preCommitTransaction2PC ::
  "Env \<Rightarrow> Database option \<Rightarrow> DatabaseTransactionMgr \<Rightarrow> OlapTable list \<Rightarrow> int
     \<Rightarrow> (int \<times> int) list \<Rightarrow> nat option \<Rightarrow> unit Outcome \<times> DatabaseTransactionMgr" where
  "preCommitTransaction2PC env dbOpt s tableList txnId tabletCommitInfos attachment =
     (case dbOpt of
        None \<Rightarrow> (Thrown MetaNotFoundException, s)
      | Some db \<Rightarrow>
          (case unprotectedGetTransactionState s txnId of
             None \<Rightarrow> (Thrown (TransactionCommitFailedException TxnNotFound), s)
           | Some txn \<Rightarrow>
               if transactionStatus txn = ABORTED
                 then (Thrown (TransactionCommitFailedException AlreadyAborted), s)
               else if transactionStatus txn = VISIBLE
                 then (Thrown (TransactionCommitFailedException AlreadyVisibleNotPreCommitted), s)
               else if transactionStatus txn = COMMITTED
                 then (Thrown (TransactionCommitFailedException AlreadyCommittedNotPreCommitted), s)
               else if transactionStatus txn = PRECOMMITTED then (Returned (), s)
               else
                 (let cs = checkCommitStatus env dbOpt tableList txn tabletCommitInfos attachment;
                      s0 = storeTxn s (csTxn cs)
                  in case csThrown cs of
                       Some e \<Rightarrow> (Thrown e, s0)
                     | None \<Rightarrow>
                         (case unprotectedPreCommitTransaction2PC env s0 (csTxn cs)
                                 (csErrorReplicaIds cs) (csTableToPartition cs)
                                 (csTotalInvolvedBackends cs) db of
                            (Some e, s1) \<Rightarrow> (Thrown e, s1)
                          | (None, s1) \<Rightarrow> (Returned (), s1)))))"

subsection \<open>finishTransaction\<close>

text \<open>\<^verbatim>\<open>updateCatalogAfterVisible\<close>: the new version, last failed version and last
  success version of every replica of a partition, then the partition's visible version.
  Modelled from the spec: \<^verbatim>\<open>Partition.updateVisibleVersionAndTime\<close> is outside the
  sources; the spec has it set the visible version and its time. The calls on the analysis
  manager and \<^verbatim>\<open>addTableIndexes\<close> are not modelled.\<close>

definition afterVisibleReplica ::
  "Env \<Rightarrow> int set \<Rightarrow> Partition \<Rightarrow> int \<Rightarrow> Replica \<Rightarrow> Replica" where
  "afterVisibleReplica env errs part newCommitVersion replica =
     (if replicaId replica \<notin> errs then
        (if \<not> checkVersionCatchUp env replica (visibleVersion part)
         then updateVersionWithFailedInfo env replica (replicaVersion replica)
                (visibleVersion part) newCommitVersion
         else updateVersionWithFailedInfo env replica newCommitVersion
                (lastFailedVersion replica) newCommitVersion)
      else updateVersionWithFailedInfo env replica (replicaVersion replica)
             (if newCommitVersion > lastFailedVersion replica then newCommitVersion
              else lastFailedVersion replica)
             (lastSuccessVersion replica))"

definition updateCatalogAfterVisible :: "Env \<Rightarrow> TransactionState \<Rightarrow> Database \<Rightarrow> Database" where
  "updateCatalogAfterVisible env txn db =
     forEachPartitionCommitInfo
       (\<lambda>pci part.
          (updateReplicas (afterVisibleReplica env (errorReplicas txn) part (pciVersion pci)) part)
          \<lparr>visibleVersion := pciVersion pci, visibleVersionTime := pciVersionTime pci\<rparr>)
       txn db"

text \<open>\<^verbatim>\<open>finishTransaction\<close>. A transaction id that is in neither map makes the Java
  dereference \<^verbatim>\<open>null\<close>. The method reads no status: it publishes whatever
  transaction the id names.\<close>

definition finishTransaction ::
  "Env \<Rightarrow> Database option \<Rightarrow> DatabaseTransactionMgr \<Rightarrow> int
     \<Rightarrow> unit Outcome \<times> DatabaseTransactionMgr \<times> Database option" where
  "finishTransaction env dbOpt s txnId =
     (case unprotectedGetTransactionState s txnId of
        None \<Rightarrow> (Thrown NullPointerException, s, dbOpt)
      | Some txn \<Rightarrow>
          (case dbOpt of
             None \<Rightarrow> (Thrown MetaNotFoundException, s, dbOpt)
           | Some db \<Rightarrow>
               (case finishCheckPartitionVersion txn db of
                  (False, txn1, related) \<Rightarrow> (Returned (), storeTxn s txn1, dbOpt)
                | (True, txn1, related) \<Rightarrow>
                    (case finishCheckQuorumReplicas env txn1 related of
                       (Thrown e, txn2) \<Rightarrow> (Thrown e, storeTxn s txn2, dbOpt)
                     | (Returned verdict, txn2) \<Rightarrow>
                         if verdict = FAILED then (Returned (), storeTxn s txn2, dbOpt)
                         else
                           (let txn3 = txn2\<lparr>finishTime := currentTimeMillis env, errMsg := None,
                                            transactionStatus := VISIBLE\<rparr>
                            in (Returned (), unprotectUpsertTransactionState s txn3 False,
                                Some (updateCatalogAfterVisible env txn3 db)))))))"

subsection \<open>Expiry and cleanup\<close>

text \<open>\<^verbatim>\<open>clearTransactionState\<close>. The label's id set is dereferenced without a check.\<close>

definition clearTransactionState ::
  "DatabaseTransactionMgr \<Rightarrow> int \<Rightarrow> Exception option \<times> DatabaseTransactionMgr" where
  "clearTransactionState s txnId =
     (case finalGet s txnId of
        None \<Rightarrow> (None, s)
      | Some txn \<Rightarrow>
          (let s1 = s\<lparr>idToFinalStatusTransactionState :=
                        removeAll txnId (idToFinalStatusTransactionState s)\<rparr>
           in case unprotectedGetTxnIdsByLabel s1 (label txn) of
                None \<Rightarrow> (Some NullPointerException, s1)
              | Some txnIds \<Rightarrow>
                  (let txnIds' = removeAll (transactionId txn) txnIds
                   in (None,
                       s1\<lparr>labelToTxnIds :=
                            (labelToTxnIds s1)(label txn :=
                               (if txnIds' = [] then None else Some txnIds'))\<rparr>))))"

text \<open>The two loops of \<^verbatim>\<open>unprotectedRemoveUselessTxns\<close> on one deque: first the
  expired heads, then the heads beyond \<^verbatim>\<open>maxFinalTxnsNum\<close>. The results: an exception
  if one was thrown, the manager, what is left of the deque, the number removed and the
  latest id removed.\<close>

fun popExpired ::
  "Env \<Rightarrow> DatabaseTransactionMgr \<Rightarrow> int list \<Rightarrow> int \<Rightarrow> int \<Rightarrow> int
     \<Rightarrow> Exception option \<times> DatabaseTransactionMgr \<times> int list \<times> int \<times> int" where
  "popExpired env s [] left n latest = (None, s, [], n, latest)"
| "popExpired env s (txnId # rest) left n latest =
     (if n < left
         \<and> (case txnObjects s txnId of
               None \<Rightarrow> False
             | Some txn \<Rightarrow> isExpired env txn (currentTimeMillis env))
      then (case clearTransactionState s txnId of
              (Some e, s1) \<Rightarrow> (Some e, s1, rest, n, latest)
            | (None, s1) \<Rightarrow> popExpired env s1 rest left (n + 1) txnId)
      else (None, s, txnId # rest, n, latest))"

fun popOverflow ::
  "Env \<Rightarrow> DatabaseTransactionMgr \<Rightarrow> int list \<Rightarrow> int \<Rightarrow> int \<Rightarrow> int
     \<Rightarrow> Exception option \<times> DatabaseTransactionMgr \<times> int list \<times> int \<times> int" where
  "popOverflow env s [] left n latest = (None, s, [], n, latest)"
| "popOverflow env s (txnId # rest) left n latest =
     (if int (length (txnId # rest)) > maxFinalTxnsNum env \<and> n < left
         \<and> (case txnObjects s txnId of
               None \<Rightarrow> False
             | Some txn \<Rightarrow> finishTime txn \<noteq> - 1)
      then (case clearTransactionState s txnId of
              (Some e, s1) \<Rightarrow> (Some e, s1, rest, n, latest)
            | (None, s1) \<Rightarrow> popOverflow env s1 rest left (n + 1) txnId)
      else (None, s, txnId # rest, n, latest))"

definition unprotectedRemoveUselessTxns ::
  "Env \<Rightarrow> DatabaseTransactionMgr \<Rightarrow> int list \<Rightarrow> int
     \<Rightarrow> Exception option \<times> DatabaseTransactionMgr \<times> int list \<times> int \<times> int" where
  "unprotectedRemoveUselessTxns env s deque left =
     (case popExpired env s deque left 0 (- 1) of
        (Some e, r) \<Rightarrow> (Some e, r)
      | (None, s1, deque1, n1, latest1) \<Rightarrow> popOverflow env s1 deque1 left n1 latest1)"

definition removeUselessTxns ::
  "Env \<Rightarrow> DatabaseTransactionMgr \<Rightarrow> Exception option \<times> DatabaseTransactionMgr" where
  "removeUselessTxns env s =
     (case unprotectedRemoveUselessTxns env s (finalStatusTransactionStateDequeShort s)
             MAX_REMOVE_TXN_PER_ROUND of
        (Some e, s1, dequeShort, nShort, latestShort) \<Rightarrow>
          (Some e, s1\<lparr>finalStatusTransactionStateDequeShort := dequeShort\<rparr>)
      | (None, s1, dequeShort, nShort, latestShort) \<Rightarrow>
          (let s2 = s1\<lparr>finalStatusTransactionStateDequeShort := dequeShort\<rparr>
           in case unprotectedRemoveUselessTxns env s2 (finalStatusTransactionStateDequeLong s2)
                     (MAX_REMOVE_TXN_PER_ROUND - nShort) of
                (Some e, s3, dequeLong, nLong, latestLong) \<Rightarrow>
                  (Some e, s3\<lparr>finalStatusTransactionStateDequeLong := dequeLong\<rparr>)
              | (None, s3, dequeLong, nLong, latestLong) \<Rightarrow>
                  (let s4 = s3\<lparr>finalStatusTransactionStateDequeLong := dequeLong\<rparr>
                   in (None,
                       if nShort + nLong > 0
                       then s4\<lparr>editLog := editLog s4
                                  @ [LogBatchRemoveTransactions (dbId s4) latestShort latestLong]\<rparr>
                       else s4))))"

text \<open>\<^verbatim>\<open>removeExpiredAndTimeoutTxns\<close>: the timed-out running transactions are aborted
  one by one, a failed abort being logged and passed over.\<close>

definition getTimeoutTxns :: "Env \<Rightarrow> DatabaseTransactionMgr \<Rightarrow> int list" where
  "getTimeoutTxns env s =
     filter (\<lambda>txnId. case txnObjects s txnId of
                        None \<Rightarrow> False
                      | Some txn \<Rightarrow> isTimeout env txn (currentTimeMillis env))
       (idToRunningTransactionState s)"

definition removeExpiredAndTimeoutTxns ::
  "Env \<Rightarrow> DatabaseTransactionMgr \<Rightarrow> Exception option \<times> DatabaseTransactionMgr" where
  "removeExpiredAndTimeoutTxns env s =
     (case removeUselessTxns env s of
        (Some e, s1) \<Rightarrow> (Some e, s1)
      | (None, s1) \<Rightarrow>
          (None,
           foldl (\<lambda>s2 txnId. snd (abortTransaction env s2 txnId ''timeout by txn manager'' None))
             s1 (getTimeoutTxns env s1)))"

subsection \<open>Sequences of operations\<close>

datatype Operation =
  BeginTransaction Env "Database option" "int list" string "TUniqueId option" LoadJobSourceType int
  | PreCommitTransaction2PC Env "Database option" "OlapTable list" int "(int \<times> int) list" "nat option"
  | CommitTransaction Env "Database option" "OlapTable list" int "(int \<times> int) list" "nat option" bool
  | AbortTransaction Env int string "nat option"
  | FinishTransaction Env "Database option" int
  | RemoveExpiredAndTimeoutTxns Env

text \<open>One call on the manager, whatever it returns or throws; the catalog is an argument of
  every call, so that it may change in any way between two calls.\<close>

fun perform :: "DatabaseTransactionMgr \<Rightarrow> Operation \<Rightarrow> DatabaseTransactionMgr" where
  "perform s (BeginTransaction env dbOpt tableIds l reqId src timeoutSecond) =
     snd (beginTransaction env dbOpt s tableIds l reqId src timeoutSecond)"
| "perform s (PreCommitTransaction2PC env dbOpt tableList txnId infos attachment) =
     snd (preCommitTransaction2PC env dbOpt s tableList txnId infos attachment)"
| "perform s (CommitTransaction env dbOpt tableList txnId infos attachment is2PC) =
     fst (snd (commitTransaction env dbOpt s tableList txnId infos attachment is2PC))"
| "perform s (AbortTransaction env txnId why attachment) =
     snd (abortTransaction env s txnId why attachment)"
| "perform s (FinishTransaction env dbOpt txnId) =
     fst (snd (finishTransaction env dbOpt s txnId))"
| "perform s (RemoveExpiredAndTimeoutTxns env) =
     snd (removeExpiredAndTimeoutTxns env s)"

definition newDatabaseTransactionMgr :: "int \<Rightarrow> DatabaseTransactionMgr" where
  "newDatabaseTransactionMgr db_id =
     \<lparr>dbId = db_id, txnObjects = (\<lambda>_. None), idToRunningTransactionState = [],
      idToFinalStatusTransactionState = [], finalStatusTransactionStateDequeShort = [],
      finalStatusTransactionStateDequeLong = [], labelToTxnIds = (\<lambda>_. None),
      runningTxnNums = 0, runningRoutineLoadTxnNums = 0, idGenerator = 0,
      usedQuotaDataBytes = - 1, editLog = [], clearTransactionTasks = []\<rparr>"

definition performAll :: "DatabaseTransactionMgr \<Rightarrow> Operation list \<Rightarrow> DatabaseTransactionMgr" where
  "performAll s ops = foldl perform s ops"

text \<open>The transactions the manager tracks: the objects of its two maps.\<close>

definition trackedTxns :: "DatabaseTransactionMgr \<Rightarrow> TransactionState set" where
  "trackedTxns s =
     {t. \<exists>txnId. txnId \<in> set (idToRunningTransactionState s) \<union> set (idToFinalStatusTransactionState s)
           \<and> txnObjects s txnId = Some t}"

definition nonAbortedWithLabel :: "DatabaseTransactionMgr \<Rightarrow> string \<Rightarrow> int set" where
  "nonAbortedWithLabel s l =
     {txnId. txnId \<in> set (idToRunningTransactionState s) \<union> set (idToFinalStatusTransactionState s)
         \<and> (\<exists>t. txnObjects s txnId = Some t \<and> label t = l \<and> transactionStatus t \<noteq> ABORTED)}"

subsection \<open>Words of the claims about the manager\<close>

text \<open>The transaction indexes of the manager are unchanged: the objects, the two maps, the
  two deques, the label index, the counters, the id generator and the edit log.\<close>

definition sameIndexes :: "DatabaseTransactionMgr \<Rightarrow> DatabaseTransactionMgr \<Rightarrow> bool" where
  "sameIndexes s s' =
     (txnObjects s' = txnObjects s
      \<and> idToRunningTransactionState s' = idToRunningTransactionState s
      \<and> idToFinalStatusTransactionState s' = idToFinalStatusTransactionState s
      \<and> finalStatusTransactionStateDequeShort s' = finalStatusTransactionStateDequeShort s
      \<and> finalStatusTransactionStateDequeLong s' = finalStatusTransactionStateDequeLong s
      \<and> labelToTxnIds s' = labelToTxnIds s
      \<and> runningTxnNums s' = runningTxnNums s
      \<and> runningRoutineLoadTxnNums s' = runningRoutineLoadTxnNums s
      \<and> idGenerator s' = idGenerator s
      \<and> editLog s' = editLog s)"

text \<open>The checks that \<^verbatim>\<open>beginTransaction\<close> makes before it takes the write lock.\<close>

definition beginPrechecksPass ::
  "Env \<Rightarrow> Database option \<Rightarrow> DatabaseTransactionMgr \<Rightarrow> string \<Rightarrow> bool" where
  "beginPrechecksPass env dbOpt s l =
     (case dbOpt of
        None \<Rightarrow> False
      | Some db \<Rightarrow>
          checkDatabaseOk env \<and> fst (checkDatabaseDataQuota db s) = None \<and> labelFormatOk env l)"

text \<open>Example managers: transactions put into a new manager as a replay of the edit log
  puts them (\<^verbatim>\<open>unprotectUpsertTransactionState\<close> with \<^verbatim>\<open>isReplay\<close>).\<close>

definition mgrOf :: "TransactionState list \<Rightarrow> DatabaseTransactionMgr" where
  "mgrOf txns =
     foldl (\<lambda>s t. unprotectUpsertTransactionState s t True) (newDatabaseTransactionMgr 1) txns"

definition txnPrepared :: "int \<Rightarrow> string \<Rightarrow> TUniqueId option \<Rightarrow> TransactionState" where
  "txnPrepared tid l reqId = txn0\<lparr>transactionId := tid, label := l, requestId := reqId\<rparr>"

subsection \<open>Label uniqueness\<close>

text \<open>The ids in the manager's two maps.\<close>

definition trackedIds :: "DatabaseTransactionMgr \<Rightarrow> int set" where
  "trackedIds s =
     set (idToRunningTransactionState s) \<union> set (idToFinalStatusTransactionState s)"

text \<open>How the manager keeps its indexes: an object is stored under its own id; the ids in
  the maps have been handed out by the generator; a transaction in one of the maps is in
  the id set of its label; no id is in both maps; a transaction in the map of the final
  ones has a final status.\<close>

definition keyedById :: "DatabaseTransactionMgr \<Rightarrow> bool" where
  "keyedById s = (\<forall>i t. txnObjects s i = Some t \<longrightarrow> transactionId t = i)"

definition idsHandedOut :: "DatabaseTransactionMgr \<Rightarrow> bool" where
  "idsHandedOut s = (\<forall>i \<in> trackedIds s. i \<le> idGenerator s)"

definition labelsIndexed :: "DatabaseTransactionMgr \<Rightarrow> bool" where
  "labelsIndexed s =
     (\<forall>i \<in> trackedIds s. \<forall>t. txnObjects s i = Some t \<longrightarrow>
        (\<exists>ids. labelToTxnIds s (label t) = Some ids \<and> i \<in> set ids))"

definition mapsDisjoint :: "DatabaseTransactionMgr \<Rightarrow> bool" where
  "mapsDisjoint s =
     (set (idToRunningTransactionState s) \<inter> set (idToFinalStatusTransactionState s) = {})"

definition finalMapFinal :: "DatabaseTransactionMgr \<Rightarrow> bool" where
  "finalMapFinal s =
     (\<forall>i \<in> set (idToFinalStatusTransactionState s). \<forall>t. txnObjects s i = Some t \<longrightarrow>
        isFinalStatus (transactionStatus t))"

definition wfStore :: "DatabaseTransactionMgr \<Rightarrow> bool" where
  "wfStore s =
     (keyedById s \<and> idsHandedOut s \<and> labelsIndexed s \<and> mapsDisjoint s \<and> finalMapFinal s)"

text \<open>At most one transaction of a label is not ABORTED.\<close>

definition labelUnique :: "DatabaseTransactionMgr \<Rightarrow> bool" where
  "labelUnique s =
     (\<forall>l i j. i \<in> nonAbortedWithLabel s l \<longrightarrow> j \<in> nonAbortedWithLabel s l \<longrightarrow> i = j)"

text \<open>What a call may do to a transaction object: the id and the label stay, an ABORTED
  transaction stays ABORTED and a final one final.\<close>

definition evolvesTxn :: "TransactionState \<Rightarrow> TransactionState \<Rightarrow> bool" where
  "evolvesTxn t t' =
     (transactionId t' = transactionId t \<and> label t' = label t
      \<and> (transactionStatus t = ABORTED \<longrightarrow> transactionStatus t' = ABORTED)
      \<and> (isFinalStatus (transactionStatus t) \<longrightarrow> isFinalStatus (transactionStatus t')))"

text \<open>What a call other than \<^verbatim>\<open>beginTransaction\<close> may do to the manager: no id enters
  the maps, and a transaction of the maps has kept its label and, if it was ABORTED, its
  status.\<close>

definition evolves :: "DatabaseTransactionMgr \<Rightarrow> DatabaseTransactionMgr \<Rightarrow> bool" where
  "evolves s s' =
     (trackedIds s' \<subseteq> trackedIds s
      \<and> (\<forall>i t'. i \<in> trackedIds s' \<longrightarrow> txnObjects s' i = Some t' \<longrightarrow>
            (\<exists>t. txnObjects s i = Some t \<and> label t' = label t
                  \<and> (transactionStatus t = ABORTED \<longrightarrow> transactionStatus t' = ABORTED)))
      \<and> wfStore s')"

text \<open>The publish daemon calls \<^verbatim>\<open>finishTransaction\<close> for the transactions it finds
  COMMITTED. A call is allowed here when it is not a \<^verbatim>\<open>finishTransaction\<close> of a
  transaction that is ABORTED when the call is made; a sequence of calls is allowed when
  each call is, in the state the calls before it have made.\<close>

fun callAllowed :: "DatabaseTransactionMgr \<Rightarrow> Operation \<Rightarrow> bool" where
  "callAllowed s (FinishTransaction env dbOpt txnId) =
     (case unprotectedGetTransactionState s txnId of
        None \<Rightarrow> True
      | Some txn \<Rightarrow> transactionStatus txn \<noteq> ABORTED)"
| "callAllowed s (BeginTransaction env dbOpt tableIds l reqId src timeoutSecond) = True"
| "callAllowed s (PreCommitTransaction2PC env dbOpt tableList txnId infos attachment) = True"
| "callAllowed s (CommitTransaction env dbOpt tableList txnId infos attachment is2PC) = True"
| "callAllowed s (AbortTransaction env txnId why attachment) = True"
| "callAllowed s (RemoveExpiredAndTimeoutTxns env) = True"

fun callsAllowed :: "DatabaseTransactionMgr \<Rightarrow> Operation list \<Rightarrow> bool" where
  "callsAllowed s [] = True"
| "callsAllowed s (call # calls) = (callAllowed s call \<and> callsAllowed (perform s call) calls)"

text \<open>Two sequences of calls on a new manager. In both a transaction is begun under the
  label \<open>L\<close> and aborted, and a second one is begun under the same label. Then the
  first sequence finishes the aborted transaction, the second one the new transaction.\<close>

definition beginL :: Operation where
  "beginL = BeginTransaction env0 (Some db0) [] ''L'' None BACKEND_STREAMING 60"


definition callsFinishSecond :: "Operation list" where
  "callsFinishSecond =
     [beginL, AbortTransaction env0 1 ''cancelled'' None, beginL,
      FinishTransaction env0 (Some db0) 2]"

chapter \<open>Theorems\<close>

section \<open>The next disk index\<close>

lemma std_max_nonneg: "\<not> (std_max 0 x <s 0)"
  by (simp add: std_max_def word_sless_alt)

lemma std_max_succ:
  assumes a: "0 \<le>s (c :: 32 word)" and b: "c \<noteq> 0x7FFFFFFF"
  shows "std_max 0 (c + 1) = c + 1"
proof -
  have r: "sint c < 2 ^ 31" using sint_lt [of c] by simp
  have "sint c \<noteq> 2 ^ 31 - 1"
  proof
    assume "sint c = 2 ^ 31 - 1"
    then have "sint c = sint (0x7FFFFFFF :: 32 word)" by simp
    then have "c = 0x7FFFFFFF" by (simp only: signed_word_eqI)
    with b show False by simp
  qed
  with r a have "0 \<le> sint c \<and> sint c + 1 < 2 ^ 31" by (simp add: word_sle_eq)
  then have "sint (c + 1) = sint c + 1"
    by (simp add: sint_word_add signed_take_bit_int_eq_self)
  then show ?thesis using a by (simp add: std_max_def word_sless_alt word_sle_eq)
qed

lemma lru_lookup_insert:
  "0 < lru_capacity c \<Longrightarrow> lru_lookup (lru_insert c k v) k = Some v"
  by (cases "lru_capacity c") (simp_all add: lru_lookup_def lru_insert_def)

lemma lru_capacity_touch: "lru_capacity (lru_touch c k v) = lru_capacity c"
  by (simp add: lru_touch_def)

text \<open>
  C9 (as stated): after the index step both the LRU entry and
  \<open>last_used_index_for_medium\<close> hold \<open>curr_index + 1\<close>. On a fresh engine the step for
  partition 7 on HDD returns \<open>curr_index = 1\<close> and leaves \<open>last_use_index[HDD] = 1\<close>,
  not 2: the code stores \<open>curr_index\<close> itself there.
\<close>

theorem next_disk_index_last_use_counterexample:
  "\<not> (case get_and_set_next_disk_index placement0 7 HDD of
         Some (idx, s') \<Rightarrow> last_use_index s' HDD = idx + 1
       | None \<Rightarrow> False)"
  by (simp add: get_and_set_next_disk_index_def placement0_def get_index_def set_index_def
      lru_lookup_def lru_insert_def get_key_def std_max_def word_sless_alt Let_def)

text \<open>
  C9 (amended): with a cache of positive capacity the step always returns; \<open>curr_index\<close>
  is the cached value on a hit and \<open>max(0, last_use_index[medium] + 1)\<close> on a miss (a
  stored \<open>-1\<close> reads as a miss); afterwards the LRU entry for \<open>(partition_id, medium)\<close>
  holds \<open>max(0, curr_index + 1)\<close>, which is \<open>curr_index + 1\<close> unless \<open>curr_index\<close> is
  negative or \<open>INT_MAX\<close>, and \<open>last_use_index[medium]\<close> holds \<open>curr_index\<close>.
\<close>

theorem next_disk_index_step:
  assumes cap: "0 < lru_capacity (create_tablet_idx_lru_cache s)"
  shows "\<exists>idx s'. get_and_set_next_disk_index s p m = Some (idx, s')
     \<and> idx = (case lru_lookup (create_tablet_idx_lru_cache s) (get_key p m) of
                Some v \<Rightarrow> if v = - 1 then std_max 0 (last_use_index s m + 1) else v
              | None \<Rightarrow> std_max 0 (last_use_index s m + 1))
     \<and> lru_lookup (create_tablet_idx_lru_cache s') (get_key p m) = Some (std_max 0 (idx + 1))
     \<and> (0 \<le>s idx \<and> idx \<noteq> 0x7FFFFFFF \<longrightarrow> std_max 0 (idx + 1) = idx + 1)
     \<and> last_use_index s' m = idx"
  using cap
  apply (simp add: get_and_set_next_disk_index_def Let_def split: prod.splits option.splits)
  apply (auto simp: set_index_def std_max_nonneg get_index_def lru_lookup_insert
      lru_capacity_touch std_max_succ split: option.splits if_splits)
  done

theorem next_disk_index_step_witness:
  "0 < lru_capacity (create_tablet_idx_lru_cache placement0)
   \<and> (\<exists>s'. get_and_set_next_disk_index placement0 7 HDD = Some (1, s')
        \<and> lru_lookup (create_tablet_idx_lru_cache s') (get_key 7 HDD) = Some 2
        \<and> last_use_index s' HDD = 1)"
proof -
  have cap: "0 < lru_capacity (create_tablet_idx_lru_cache placement0)"
    by (simp add: placement0_def)
  have look: "lru_lookup (create_tablet_idx_lru_cache placement0) (get_key 7 HDD) = None"
    by (simp add: placement0_def lru_lookup_def)
  have m1: "std_max 0 (last_use_index placement0 HDD + 1) = 1"
    by (simp add: placement0_def std_max_def word_sless_alt)
  have m2: "std_max 0 (2 :: 32 word) = 2"
    by (simp add: std_max_def word_sless_alt)
  from next_disk_index_step [OF cap, of 7 HDD] show ?thesis
    using cap by (auto simp: look m1 m2)
qed

section \<open>Publish: the classification of one replica\<close>

text \<open>
  C5: \<^verbatim>\<open>checkReplicaContinuousVersionSucc\<close> does what the claim says. The error set
  after the task and ALTER steps is \<open>spec_errored\<close>, written from the claim's words (a
  missing or unfinished task records the replica; a success set clears it when the tablet
  is in the set and records it otherwise; a legacy task records it iff the tablet is among
  the error tablets; an ALTER replica is cleared when the transaction predates the
  watermark or the flag is off). The replica joins exactly the list of its class
  \<open>spec_replica_class\<close>: success when not recorded and version-continuous to \<open>V - 1\<close>,
  version-failed when not recorded and lagging, success when recorded but already at
  \<open>V\<close> or beyond (its record is then removed), write-failed otherwise.
\<close>

theorem checkReplicaContinuousVersionSucc_spec:
  "(let c' = checkReplicaContinuousVersionSucc env tid r alt v task c;
        cls = spec_replica_class env tid r alt v task (errorReplicaIds c);
        errs = spec_errored env tid r alt task (errorReplicaIds c)
    in tabletSuccReplicas c' = tabletSuccReplicas c @ (if cls = Success then [r] else [])
     \<and> tabletVersionFailedReplicas c' =
         tabletVersionFailedReplicas c @ (if cls = VersionFailed then [r] else [])
     \<and> tabletWriteFailedReplicas c' =
         tabletWriteFailedReplicas c @ (if cls = WriteFailed then [r] else [])
     \<and> errorReplicaIds c' = (if cls = Success then errs - {replicaId r} else errs))"
  unfolding checkReplicaContinuousVersionSucc_def spec_replica_class_def spec_errored_def
    spec_errored_by_task_def Let_def
  by (cases task) (auto split: option.splits if_splits)

text \<open>Replica 1 (version 5) was recorded as errored at commit; its backend's task reports
  tablet 1000 published at version 6: the record is cleared and the replica is a success.\<close>

theorem checkReplicaContinuousVersionSucc_spec_witness:
  "tabletSuccReplicas
     (checkReplicaContinuousVersionSucc env0 1000
        (replica0\<lparr>replicaId := 1, backendId := 1, replicaVersion := 5\<rparr>) True 6
        (Some taskSucc1000) (replicaCheck0 {1}))
     = [replica0\<lparr>replicaId := 1, backendId := 1, replicaVersion := 5\<rparr>]
   \<and> errorReplicaIds
     (checkReplicaContinuousVersionSucc env0 1000
        (replica0\<lparr>replicaId := 1, backendId := 1, replicaVersion := 5\<rparr>) True 6
        (Some taskSucc1000) (replicaCheck0 {1}))
     = {}"
  using checkReplicaContinuousVersionSucc_spec
    [where env = env0 and tid = 1000
       and r = "replica0\<lparr>replicaId := 1, backendId := 1, replicaVersion := 5\<rparr>"
       and alt = True and v = 6 and task = "Some taskSucc1000" and c = "replicaCheck0 {1}"]
  by (simp add: Let_def spec_replica_class_def spec_errored_def spec_errored_by_task_def
      env0_def replica0_def taskSucc1000_def replicaCheck0_def)

section \<open>Publish: finishCheckPartitionVersion\<close>

lemma checkPartitionInfos_ok:
  "(snd (snd (checkPartitionInfos tbl ps)) = None)
     = list_all (\<lambda>(k', p). spec_partition_next_to_publish tbl p) ps"
proof (induction ps)
  case Nil
  then show ?case by simp
next
  case (Cons a ps)
  obtain k p where a: "a = (k, p)" by (cases a)
  obtain kept rel err where r: "checkPartitionInfos tbl ps = (kept, rel, err)"
    by (cases "checkPartitionInfos tbl ps")
  show ?case using Cons a r
    by (cases "getPartition tbl (pciPartitionId p)")
       (auto simp: spec_partition_next_to_publish_def)
qed

lemma checkPartitionInfos_surviving:
  "spec_surviving_partitions tbl (fst (checkPartitionInfos tbl ps))
     = spec_surviving_partitions tbl ps"
proof (induction ps)
  case Nil
  then show ?case by simp
next
  case (Cons a ps)
  obtain k p where a: "a = (k, p)" by (cases a)
  obtain kept rel err where r: "checkPartitionInfos tbl ps = (kept, rel, err)"
    by (cases "checkPartitionInfos tbl ps")
  show ?case using Cons a r
    by (cases "getPartition tbl (pciPartitionId p)")
       (auto simp: spec_surviving_partitions_def)
qed

lemma checkPartitionInfos_kept:
  "snd (snd (checkPartitionInfos tbl ps)) = None \<Longrightarrow>
     fst (checkPartitionInfos tbl ps) = spec_surviving_partitions tbl ps"
proof (induction ps)
  case Nil
  then show ?case by (simp add: spec_surviving_partitions_def)
next
  case (Cons a ps)
  obtain k p where a: "a = (k, p)" by (cases a)
  obtain kept rel err where r: "checkPartitionInfos tbl ps = (kept, rel, err)"
    by (cases "checkPartitionInfos tbl ps")
  show ?case using Cons a r
    by (cases "getPartition tbl (pciPartitionId p)")
       (auto simp: spec_surviving_partitions_def split: if_splits)
qed

lemma checkPartitionInfos_msg:
  "snd (snd (checkPartitionInfos tbl ps)) = Some e \<Longrightarrow>
     \<exists>p v sv t. e = WaitForPublishing p v sv t"
proof (induction ps)
  case Nil
  then show ?case by simp
next
  case (Cons a ps)
  obtain k p where a: "a = (k, p)" by (cases a)
  obtain kept rel err where r: "checkPartitionInfos tbl ps = (kept, rel, err)"
    by (cases "checkPartitionInfos tbl ps")
  show ?case using Cons a r
    by (cases "getPartition tbl (pciPartitionId p)")
       (auto split: if_splits)
qed

lemma checkTableInfos_ok:
  "(snd (snd (checkTableInfos db ts)) = None) = spec_all_next_to_publish db ts"
proof (induction ts)
  case Nil
  then show ?case by (simp add: spec_all_next_to_publish_def)
next
  case (Cons a ts)
  obtain k t where a: "a = (k, t)" by (cases a)
  show ?case
  proof (cases "getTableNullable db (tciTableId t)")
    case None
    with Cons a show ?thesis by (simp add: spec_all_next_to_publish_def)
  next
    case (Some tbl)
    obtain pk pr pe where c: "checkPartitionInfos tbl (idToPartitionCommitInfo t) = (pk, pr, pe)"
      by (cases "checkPartitionInfos tbl (idToPartitionCommitInfo t)")
    have pe: "(pe = None)
        = list_all (\<lambda>(k', p). spec_partition_next_to_publish tbl p) (idToPartitionCommitInfo t)"
      using checkPartitionInfos_ok [of tbl "idToPartitionCommitInfo t"] c by simp
    show ?thesis
      using Cons a Some c pe
      by (cases pe) (auto simp: spec_all_next_to_publish_def split: prod.splits)
  qed
qed

lemma checkTableInfos_surviving:
  "spec_surviving_infos db (fst (checkTableInfos db ts)) = spec_surviving_infos db ts"
proof (induction ts)
  case Nil
  then show ?case by simp
next
  case (Cons a ts)
  obtain k t where a: "a = (k, t)" by (cases a)
  show ?case
  proof (cases "getTableNullable db (tciTableId t)")
    case None
    with Cons a show ?thesis by (simp add: spec_surviving_infos_def)
  next
    case (Some tbl)
    obtain pk pr pe where c: "checkPartitionInfos tbl (idToPartitionCommitInfo t) = (pk, pr, pe)"
      by (cases "checkPartitionInfos tbl (idToPartitionCommitInfo t)")
    obtain kept rel err where r: "checkTableInfos db ts = (kept, rel, err)"
      by (cases "checkTableInfos db ts")
    have pk: "spec_surviving_partitions tbl pk
                = spec_surviving_partitions tbl (idToPartitionCommitInfo t)"
      using checkPartitionInfos_surviving [of tbl "idToPartitionCommitInfo t"] c by simp
    show ?thesis
      using Cons a Some c r pk
      by (cases pe) (auto simp: spec_surviving_infos_def)
  qed
qed

lemma checkTableInfos_kept:
  "snd (snd (checkTableInfos db ts)) = None \<Longrightarrow>
     fst (checkTableInfos db ts) = spec_surviving_infos db ts"
proof (induction ts)
  case Nil
  then show ?case by (simp add: spec_surviving_infos_def)
next
  case (Cons a ts)
  obtain k t where a: "a = (k, t)" by (cases a)
  show ?case
  proof (cases "getTableNullable db (tciTableId t)")
    case None
    with Cons a show ?thesis by (simp add: spec_surviving_infos_def)
  next
    case (Some tbl)
    obtain pk pr pe where c: "checkPartitionInfos tbl (idToPartitionCommitInfo t) = (pk, pr, pe)"
      by (cases "checkPartitionInfos tbl (idToPartitionCommitInfo t)")
    obtain kept rel err where r: "checkTableInfos db ts = (kept, rel, err)"
      by (cases "checkTableInfos db ts")
    have pk: "pe = None \<Longrightarrow> pk = spec_surviving_partitions tbl (idToPartitionCommitInfo t)"
      using checkPartitionInfos_kept [of tbl "idToPartitionCommitInfo t"] c by simp
    show ?thesis
      using Cons a Some c r pk
      by (cases pe) (auto simp: spec_surviving_infos_def)
  qed
qed

lemma checkTableInfos_msg:
  "snd (snd (checkTableInfos db ts)) = Some e \<Longrightarrow> \<exists>p v sv t. e = WaitForPublishing p v sv t"
proof (induction ts)
  case Nil
  then show ?case by simp
next
  case (Cons a ts)
  obtain k t where a: "a = (k, t)" by (cases a)
  show ?case
  proof (cases "getTableNullable db (tciTableId t)")
    case None
    with Cons a show ?thesis by simp
  next
    case (Some tbl)
    obtain pk pr pe where c: "checkPartitionInfos tbl (idToPartitionCommitInfo t) = (pk, pr, pe)"
      by (cases "checkPartitionInfos tbl (idToPartitionCommitInfo t)")
    obtain kept rel err where r: "checkTableInfos db ts = (kept, rel, err)"
      by (cases "checkTableInfos db ts")
    have pe: "pe = Some e \<Longrightarrow> \<exists>p v sv t. e = WaitForPublishing p v sv t"
      using checkPartitionInfos_msg [of tbl "idToPartitionCommitInfo t" e] c by simp
    show ?thesis
      using Cons a Some c r pe
      by (cases pe) auto
  qed
qed

lemmas example_catalog_defs =
  txn0_def db1_def db0_def table1_def partition10_def tablet1000_def replica0_def tci_def
  pci_def getTableNullable_def getPartition_def getIndex_def

text \<open>
  C4 (as stated): the method removes every commit-info entry whose table or partition no
  longer exists. With commit infos for partition 10 of table 1 at version 8 (visible
  version 5, so not the next to publish) and for the dropped table 2, in this iteration
  order, the method returns false at partition 10 and the entry of table 2 is still in the
  transaction. (A \<^verbatim>\<open>HashMap\<close> with the keys 1 and 2 iterates in this order.)
\<close>

theorem finishCheckPartitionVersion_removal_counterexample:
  "\<not> (case finishCheckPartitionVersion (txnCommitted 8) db1 of
         (ok, txn', related) \<Rightarrow>
           idToTableCommitInfos txn'
             = spec_surviving_infos db1 (idToTableCommitInfos (txnCommitted 8)))"
  by (simp add: finishCheckPartitionVersion_def txnCommitted_def example_catalog_defs
      spec_surviving_infos_def spec_surviving_partitions_def)

text \<open>What the two loops return, in the amended claim's words.\<close>

lemma next_to_publish_code:
  "getPartition tbl (pciPartitionId p) = Some part \<Longrightarrow>
     spec_partition_next_to_publish tbl p = (\<not> visibleVersion part \<noteq> pciVersion p - 1)"
  by (auto simp: spec_partition_next_to_publish_def)

lemma checkPartitionInfos_exact:
  "checkPartitionInfos tbl ps
     = (spec_partitions_after tbl ps, spec_related_partitions tbl ps,
        spec_partition_message tbl ps)"
proof (induction ps)
  case Nil
  then show ?case
    by (simp add: spec_partitions_after_def spec_related_partitions_def
        spec_partition_message_def spec_surviving_partitions_def map_filter_simps)
next
  case (Cons a ps)
  obtain k p where a: "a = (k, p)" by (cases a)
  show ?case
  proof (cases "getPartition tbl (pciPartitionId p)")
    case None
    then have nx: "spec_partition_next_to_publish tbl p"
      by (simp add: spec_partition_next_to_publish_def)
    show ?thesis
      using Cons a None nx
      by (simp add: spec_partitions_after_def spec_related_partitions_def
          spec_partition_message_def spec_surviving_partitions_def map_filter_simps)
  next
    case (Some part)
    note nx = next_to_publish_code [OF Some]
    show ?thesis
    proof (cases "visibleVersion part \<noteq> pciVersion p - 1")
      case True
      then have "\<not> spec_partition_next_to_publish tbl p" using nx by simp
      then show ?thesis
        using a Some True
        by (simp add: spec_partitions_after_def spec_related_partitions_def
            spec_partition_message_def spec_surviving_partitions_def map_filter_simps)
    next
      case False
      then have "spec_partition_next_to_publish tbl p" using nx by simp
      then show ?thesis
        using Cons a Some False
        by (simp add: spec_partitions_after_def spec_related_partitions_def
            spec_partition_message_def spec_surviving_partitions_def map_filter_simps)
    qed
  qed
qed

lemma partitions_after_clear:
  assumes "list_all (\<lambda>(k', pci). spec_partition_next_to_publish tbl pci) ps"
  shows "spec_partitions_after tbl ps = spec_surviving_partitions tbl ps"
    and "spec_partition_message tbl ps = None"
proof -
  have t: "takeWhile (\<lambda>(k', pci). spec_partition_next_to_publish tbl pci) ps = ps"
    using assms by (simp add: list_all_iff)
  have d: "dropWhile (\<lambda>(k', pci). spec_partition_next_to_publish tbl pci) ps = []"
    using assms by (simp add: list_all_iff)
  show "spec_partitions_after tbl ps = spec_surviving_partitions tbl ps"
    by (simp add: spec_partitions_after_def t d)
  show "spec_partition_message tbl ps = None"
    by (simp add: spec_partition_message_def d)
qed

lemma partition_message_waits:
  assumes "\<not> list_all (\<lambda>(k', pci). spec_partition_next_to_publish tbl pci) ps"
  shows "\<exists>e. spec_partition_message tbl ps = Some e"
proof -
  have "snd (snd (checkPartitionInfos tbl ps)) \<noteq> None"
    using checkPartitionInfos_ok [of tbl ps] assms by simp
  then show ?thesis by (simp add: checkPartitionInfos_exact)
qed

lemma checkTableInfos_exact:
  "checkTableInfos db ts = (spec_infos_after db ts, spec_related db ts, spec_wait_message db ts)"
proof (induction ts)
  case Nil
  then show ?case
    by (simp add: spec_infos_after_def spec_related_def spec_wait_message_def
        spec_surviving_infos_def map_filter_simps)
next
  case (Cons a ts)
  obtain k t where a: "a = (k, t)" by (cases a)
  show ?case
  proof (cases "getTableNullable db (tciTableId t)")
    case None
    then have cl: "spec_table_clear db (k, t)" by (simp add: spec_table_clear_def)
    show ?thesis
      using Cons a None cl
      by (simp add: spec_infos_after_def spec_related_def spec_wait_message_def
          spec_surviving_infos_def map_filter_simps)
  next
    case (Some tbl)
    note ex = checkPartitionInfos_exact [of tbl "idToPartitionCommitInfo t"]
    show ?thesis
    proof (cases "list_all (\<lambda>(k', pci). spec_partition_next_to_publish tbl pci)
                    (idToPartitionCommitInfo t)")
      case True
      then have cl: "spec_table_clear db (k, t)" using Some by (simp add: spec_table_clear_def)
      note pc = partitions_after_clear [OF True]
      show ?thesis
        using Cons a Some cl ex pc
        by (simp add: spec_infos_after_def spec_related_def spec_wait_message_def
            spec_surviving_infos_def map_filter_simps)
    next
      case False
      then have ncl: "\<not> spec_table_clear db (k, t)"
        using Some by (simp add: spec_table_clear_def)
      from partition_message_waits [OF False]
      obtain e where e: "spec_partition_message tbl (idToPartitionCommitInfo t) = Some e" ..
      show ?thesis
        using a Some ncl ex e
        by (simp add: spec_infos_after_def spec_related_def spec_wait_message_def
            spec_surviving_infos_def map_filter_simps)
    qed
  qed
qed

lemma all_next_clear:
  "spec_all_next_to_publish db ts = list_all (spec_table_clear db) ts"
  by (simp add: spec_all_next_to_publish_def spec_table_clear_def)

lemma infos_after_all_next:
  assumes "spec_all_next_to_publish db ts"
  shows "spec_infos_after db ts = spec_surviving_infos db ts"
proof -
  have cl: "list_all (spec_table_clear db) ts" using assms by (simp add: all_next_clear)
  have t: "takeWhile (spec_table_clear db) ts = ts"
    and d: "dropWhile (spec_table_clear db) ts = []"
    using cl by (simp_all add: list_all_iff)
  show ?thesis by (simp add: spec_infos_after_def t d)
qed

text \<open>
  C4 (amended): \<^verbatim>\<open>finishCheckPartitionVersion\<close> visits the commit-info entries in the
  iteration order of the maps. It returns true iff every commit-info partition that still
  exists has \<open>visible_version + 1\<close> equal to its commit-info version; it has then removed
  every entry whose table or partition no longer exists, and nothing else, and has left
  the error message alone. Otherwise it returns false at the first existing partition, in
  this order, whose commit-info version is not \<open>visible_version + 1\<close>, with a "wait for
  publishing" message for that partition: of the entries visited before that partition
  those of dropped tables and partitions are removed, and the entry of that partition and
  every entry after it, dropped or not, stay in the commit infos. Whatever it returns, it
  changes nothing of the transaction but the commit infos and the message (a COMMITTED
  transaction stays COMMITTED), it removes no entry of an existing table and partition,
  and the pairs it hands to the quorum check are the existing partitions it has visited.
\<close>

theorem finishCheckPartitionVersion_spec:
  "(case finishCheckPartitionVersion txn db of
      (ok, txn', related) \<Rightarrow>
        ok = spec_all_next_to_publish db (idToTableCommitInfos txn)
      \<and> txn' = txn\<lparr>idToTableCommitInfos := spec_infos_after db (idToTableCommitInfos txn),
                   errMsg := (if ok then errMsg txn
                              else spec_wait_message db (idToTableCommitInfos txn))\<rparr>
      \<and> (if ok
           then idToTableCommitInfos txn' = spec_surviving_infos db (idToTableCommitInfos txn)
           else (\<exists>p v sv t. errMsg txn' = Some (WaitForPublishing p v sv t)))
      \<and> spec_surviving_infos db (idToTableCommitInfos txn')
            = spec_surviving_infos db (idToTableCommitInfos txn)
      \<and> transactionStatus txn' = transactionStatus txn
      \<and> related = spec_related db (idToTableCommitInfos txn))"
proof -
  note r = checkTableInfos_exact [of db "idToTableCommitInfos txn"]
  have ok: "(spec_wait_message db (idToTableCommitInfos txn) = None)
              = spec_all_next_to_publish db (idToTableCommitInfos txn)"
    using checkTableInfos_ok [of db "idToTableCommitInfos txn"] r by simp
  have surv: "spec_surviving_infos db (spec_infos_after db (idToTableCommitInfos txn))
                = spec_surviving_infos db (idToTableCommitInfos txn)"
    using checkTableInfos_surviving [of db "idToTableCommitInfos txn"] r by simp
  have msg: "\<And>e. spec_wait_message db (idToTableCommitInfos txn) = Some e \<Longrightarrow>
               \<exists>p v sv t. e = WaitForPublishing p v sv t"
    using checkTableInfos_msg [of db "idToTableCommitInfos txn"] r by simp
  show ?thesis
  proof (cases "spec_wait_message db (idToTableCommitInfos txn)")
    case None
    then have al: "spec_all_next_to_publish db (idToTableCommitInfos txn)" using ok by simp
    show ?thesis
      using None al r surv infos_after_all_next [OF al]
      by (simp add: finishCheckPartitionVersion_def)
  next
    case (Some e)
    then have al: "\<not> spec_all_next_to_publish db (idToTableCommitInfos txn)" using ok by simp
    show ?thesis
      using Some al r surv msg [OF Some]
      by (auto simp: finishCheckPartitionVersion_def)
  qed
qed

text \<open>With partition 10 committed at version 6, the next to publish, the method returns
  true and the entry of the dropped table 2 is gone. At version 8 it returns false at
  partition 10: the entry of table 2 stays when it comes after that of table 1, and is
  removed when it comes before.\<close>

theorem finishCheckPartitionVersion_spec_witness:
  "finishCheckPartitionVersion (txnCommitted 6) db1
     = (True, (txnCommitted 6)\<lparr>idToTableCommitInfos := [tci 1 [(10, 6)]]\<rparr>,
        [(table1, partition10)])
   \<and> finishCheckPartitionVersion (txnCommitted 8) db1
       = (False, (txnCommitted 8)\<lparr>errMsg := Some (WaitForPublishing 10 6 8 1)\<rparr>, [])
   \<and> finishCheckPartitionVersion txnCommittedDroppedFirst db1
       = (False, txnCommittedDroppedFirst\<lparr>idToTableCommitInfos := [tci 1 [(10, 8)]],
                                           errMsg := Some (WaitForPublishing 10 6 8 1)\<rparr>, [])"
proof -
  have a6: "spec_all_next_to_publish db1 (idToTableCommitInfos (txnCommitted 6))"
    and a8: "\<not> spec_all_next_to_publish db1 (idToTableCommitInfos (txnCommitted 8))"
    and a8': "\<not> spec_all_next_to_publish db1 (idToTableCommitInfos txnCommittedDroppedFirst)"
    by code_simp+
  have s6: "spec_infos_after db1 (idToTableCommitInfos (txnCommitted 6)) = [tci 1 [(10, 6)]]"
    and s8: "spec_infos_after db1 (idToTableCommitInfos (txnCommitted 8))
               = idToTableCommitInfos (txnCommitted 8)"
    and s8': "spec_infos_after db1 (idToTableCommitInfos txnCommittedDroppedFirst)
                = [tci 1 [(10, 8)]]"
    by code_simp+
  have r6: "spec_related db1 (idToTableCommitInfos (txnCommitted 6)) = [(table1, partition10)]"
    and r8: "spec_related db1 (idToTableCommitInfos (txnCommitted 8)) = []"
    and r8': "spec_related db1 (idToTableCommitInfos txnCommittedDroppedFirst) = []"
    by code_simp+
  have m8: "spec_wait_message db1 (idToTableCommitInfos (txnCommitted 8))
              = Some (WaitForPublishing 10 6 8 1)"
    and m8': "spec_wait_message db1 (idToTableCommitInfos txnCommittedDroppedFirst)
              = Some (WaitForPublishing 10 6 8 1)"
    by code_simp+
  have w6: "finishCheckPartitionVersion (txnCommitted 6) db1
     = (True, (txnCommitted 6)\<lparr>idToTableCommitInfos := [tci 1 [(10, 6)]]\<rparr>,
        [(table1, partition10)])"
    using finishCheckPartitionVersion_spec [where txn = "txnCommitted 6" and db = db1] a6
    unfolding s6 r6 by (auto split: prod.splits)
  have w8: "finishCheckPartitionVersion (txnCommitted 8) db1
       = (False, (txnCommitted 8)\<lparr>errMsg := Some (WaitForPublishing 10 6 8 1)\<rparr>, [])"
    using finishCheckPartitionVersion_spec [where txn = "txnCommitted 8" and db = db1] a8
    unfolding s8 r8 m8 by (auto split: prod.splits)
  have w8': "finishCheckPartitionVersion txnCommittedDroppedFirst db1
       = (False, txnCommittedDroppedFirst\<lparr>idToTableCommitInfos := [tci 1 [(10, 8)]],
                                           errMsg := Some (WaitForPublishing 10 6 8 1)\<rparr>, [])"
    using finishCheckPartitionVersion_spec [where txn = txnCommittedDroppedFirst and db = db1] a8'
    unfolding s8' r8' m8' by (auto split: prod.splits)
  show ?thesis using w6 w8 w8' by simp
qed

section \<open>commitTransaction on a transaction that is missing or already past PREPARE\<close>

text \<open>
  C10: for a manager whose database exists, \<^verbatim>\<open>commitTransaction\<close> on a transaction
  that is COMMITTED or VISIBLE returns normally with \<open>is2PC = false\<close> and throws
  \<^verbatim>\<open>TransactionCommitFailedException\<close> with \<open>is2PC = true\<close>; on a transaction that
  does not exist or is ABORTED it throws \<^verbatim>\<open>TransactionCommitFailedException\<close> whatever
  \<open>is2PC\<close> is. In all these cases the manager (every transaction object with its commit
  infos, every index) and the catalog (every partition version) are what they were.
\<close>

theorem commitTransaction_already_done:
  assumes notRunning:
    "case unprotectedGetTransactionState s txnId of
       None \<Rightarrow> True
     | Some txn \<Rightarrow> transactionStatus txn \<in> {ABORTED, COMMITTED, VISIBLE}"
  shows
    "commitTransaction env (Some db) s tableList txnId tabletCommitInfos attachment is2PC
       = ((case unprotectedGetTransactionState s txnId of
             None \<Rightarrow> Thrown (TransactionCommitFailedException TxnNotFound)
           | Some txn \<Rightarrow>
               if transactionStatus txn = ABORTED
                 then Thrown (TransactionCommitFailedException AlreadyAborted)
               else if \<not> is2PC then Returned ()
               else if transactionStatus txn = VISIBLE
                 then Thrown (TransactionCommitFailedException AlreadyVisibleNotPreCommitted)
               else Thrown (TransactionCommitFailedException AlreadyCommittedNotPreCommitted)),
          s, Some db)"
  using notRunning
  by (auto simp: commitTransaction_def split: option.splits)

lemmas example_mgr_defs =
  mgrOf_def unprotectUpsertTransactionState_def newDatabaseTransactionMgr_def storeTxn_def
  updateTxnLabels_def countRunning_def isFinalStatus_def Let_def
  unprotectedGetTransactionState_def unprotectedGetTxnIdsByLabel_def runningGet_def finalGet_def

lemma mgrOf_committed_get:
  "unprotectedGetTransactionState (mgrOf [txnCommitted 6]) 7 = Some (txnCommitted 6)"
  by (simp add: example_mgr_defs txnCommitted_def txn0_def)

text \<open>The committed transaction 7: a repeated one-phase commit returns and changes nothing,
  a two-phase commit is refused, and so is the commit of the unknown transaction 8.\<close>

theorem commitTransaction_already_done_witness:
  "commitTransaction env0 (Some db1) (mgrOf [txnCommitted 6]) [] 7 [] None False
     = (Returned (), mgrOf [txnCommitted 6], Some db1)
   \<and> commitTransaction env0 (Some db1) (mgrOf [txnCommitted 6]) [] 7 [] None True
     = (Thrown (TransactionCommitFailedException AlreadyCommittedNotPreCommitted),
        mgrOf [txnCommitted 6], Some db1)"
proof -
  have st: "transactionStatus (txnCommitted 6) = COMMITTED"
    by (simp add: txnCommitted_def)
  have pre: "case unprotectedGetTransactionState (mgrOf [txnCommitted 6]) 7 of
       None \<Rightarrow> True
     | Some txn \<Rightarrow> transactionStatus txn \<in> {ABORTED, COMMITTED, VISIBLE}"
    by (simp add: mgrOf_committed_get st)
  show ?thesis
    using commitTransaction_already_done [OF pre, of env0 db1 "[]" "[]" None False]
      commitTransaction_already_done [OF pre, of env0 db1 "[]" "[]" None True]
    by (simp add: mgrOf_committed_get st)
qed

section \<open>beginTransaction with a label in use\<close>

lemma checkDatabaseDataQuota_sameIndexes:
  "sameIndexes s (snd (checkDatabaseDataQuota db s))"
  by (simp add: checkDatabaseDataQuota_def sameIndexes_def Let_def)

lemma sameIndexes_get:
  "sameIndexes s s' \<Longrightarrow>
     unprotectedGetTransactionState s' i = unprotectedGetTransactionState s i"
  by (auto simp: sameIndexes_def unprotectedGetTransactionState_def runningGet_def finalGet_def
      split: option.splits)

lemma sameIndexes_notAborted:
  "sameIndexes s s' \<Longrightarrow> notAbortedTxnsOf s' ids = notAbortedTxnsOf s ids"
  by (induction ids) (auto simp: sameIndexes_get split: option.splits)

lemma sameIndexes_checkLabel:
  assumes same: "sameIndexes s s'"
  shows "checkLabel s' l reqId = checkLabel s l reqId"
proof -
  have na: "notAbortedTxnsOf s' = notAbortedTxnsOf s"
    using sameIndexes_notAborted [OF same] by (intro ext)
  have lab: "unprotectedGetTxnIdsByLabel s' l = unprotectedGetTxnIdsByLabel s l"
    using same by (simp add: sameIndexes_def unprotectedGetTxnIdsByLabel_def)
  show ?thesis unfolding checkLabel_def na lab ..
qed

text \<open>
  C6: let the label have transaction ids of which exactly one, \<open>t\<close>, names a transaction
  that is not ABORTED. Then \<^verbatim>\<open>beginTransaction\<close> never returns a new id and leaves the
  transaction indexes as they were; and when the checks made before the lock pass (the
  database exists, the data quota is not used up, the label is well formed), it throws
  \<^verbatim>\<open>DuplicatedRequestException\<close> carrying the id of \<open>t\<close> if \<open>t\<close> is in PREPARE or
  PRECOMMITTED and has the same non-null request id, and
  \<^verbatim>\<open>LabelAlreadyUsedException\<close> otherwise.
\<close>

theorem beginTransaction_label_in_use:
  assumes ids: "unprotectedGetTxnIdsByLabel s l = Some existingTxnIds"
    and one: "notAbortedTxnsOf s existingTxnIds = Inr [t]"
  shows
    "(\<forall>tid. fst (beginTransaction env dbOpt s tableIds l reqId src timeoutSecond) \<noteq> Returned tid)
     \<and> sameIndexes s (snd (beginTransaction env dbOpt s tableIds l reqId src timeoutSecond))
     \<and> (beginPrechecksPass env dbOpt s l \<longrightarrow>
          fst (beginTransaction env dbOpt s tableIds l reqId src timeoutSecond)
            = Thrown (if reqId \<noteq> None
                         \<and> (transactionStatus t = PREPARE \<or> transactionStatus t = PRECOMMITTED)
                         \<and> requestId t = reqId
                      then DuplicatedRequestException (transactionId t)
                      else LabelAlreadyUsedException (transactionId t)))"
proof -
  have ne: "existingTxnIds \<noteq> []" using one by auto
  have cl: "checkLabel s l reqId
      = Some (if reqId \<noteq> None
                 \<and> (transactionStatus t = PREPARE \<or> transactionStatus t = PRECOMMITTED)
                 \<and> requestId t = reqId
              then DuplicatedRequestException (transactionId t)
              else LabelAlreadyUsedException (transactionId t))"
    using ids one ne by (auto simp: checkLabel_def)
  show ?thesis
  proof (cases dbOpt)
    case None
    then show ?thesis
      by (simp add: beginTransaction_def beginPrechecksPass_def sameIndexes_def)
  next
    case (Some db)
    obtain qe s1 where q: "checkDatabaseDataQuota db s = (qe, s1)"
      by (cases "checkDatabaseDataQuota db s")
    have s1: "sameIndexes s s1"
      using checkDatabaseDataQuota_sameIndexes [of s db] q by simp
    have cl1: "checkLabel s1 l reqId = checkLabel s l reqId"
      using sameIndexes_checkLabel [OF s1] by simp
    show ?thesis
      using Some q s1 cl1 cl
      by (cases qe)
         (simp_all add: beginTransaction_def beginPrechecksPass_def sameIndexes_def)
  qed
qed

text \<open>The spec's scenario (a): transaction 100 with label L1 and request id (1, 1) is in
  PREPARE. A begin with the same label and request id gets the existing id 100 in a
  \<^verbatim>\<open>DuplicatedRequestException\<close>; with another request id the label is already used.\<close>

theorem beginTransaction_label_in_use_witness:
  "fst (beginTransaction env0 (Some db1) (mgrOf [txnPrepared 100 ''L1'' (Some (1, 1))])
          [1] ''L1'' (Some (1, 1)) BACKEND_STREAMING 60)
     = Thrown (DuplicatedRequestException 100)
   \<and> fst (beginTransaction env0 (Some db1) (mgrOf [txnPrepared 100 ''L1'' (Some (1, 1))])
          [1] ''L1'' (Some (2, 2)) BACKEND_STREAMING 60)
     = Thrown (LabelAlreadyUsedException 100)
   \<and> sameIndexes (mgrOf [txnPrepared 100 ''L1'' (Some (1, 1))])
       (snd (beginTransaction env0 (Some db1) (mgrOf [txnPrepared 100 ''L1'' (Some (1, 1))])
          [1] ''L1'' (Some (1, 1)) BACKEND_STREAMING 60))"
proof -
  let ?s = "mgrOf [txnPrepared 100 ''L1'' (Some (1, 1))]"
  let ?t = "txnPrepared 100 ''L1'' (Some (1, 1))"
  have ids: "unprotectedGetTxnIdsByLabel ?s ''L1'' = Some [100]"
    by (simp add: example_mgr_defs txnPrepared_def txn0_def)
  have one: "notAbortedTxnsOf ?s [100] = Inr [?t]"
    by (simp add: example_mgr_defs txnPrepared_def txn0_def)
  have pre: "beginPrechecksPass env0 (Some db1) ?s ''L1''"
    by (simp add: beginPrechecksPass_def checkDatabaseDataQuota_def env0_def db1_def db0_def
        example_mgr_defs)
  have t: "transactionStatus ?t = PREPARE" "requestId ?t = Some (1, 1)" "transactionId ?t = 100"
    by (simp_all add: txnPrepared_def txn0_def)
  show ?thesis
    using beginTransaction_label_in_use [OF ids one, of env0 "Some db1" "[1]" "Some (1, 1)"
        BACKEND_STREAMING 60]
      beginTransaction_label_in_use [OF ids one, of env0 "Some db1" "[1]" "Some (2, 2)"
        BACKEND_STREAMING 60]
      pre
    by (simp add: t)
qed

section \<open>Publish: the verdict of the quorum check\<close>

lemma checkTabletQuorum_step:
  "qErrorReplicaIds (checkTabletQuorum env txn tbl part allow q tablet)
     = spec_errs_after env txn tbl part (qErrorReplicaIds q) tablet
   \<and> publishResult (checkTabletQuorum env txn tbl part allow q tablet)
     = (let h = spec_tablet_health env txn tbl part (qErrorReplicaIds q) tablet
        in if h \<ge> loadRequiredReplicaNum part then publishResult q
           else if allow \<and> h > 0
             then (if publishResult q = QUORUM_SUCC then TIMEOUT_SUCC else publishResult q)
           else FAILED)
   \<and> (let h = spec_tablet_health env txn tbl part (qErrorReplicaIds q) tablet
      in if h < loadRequiredReplicaNum part \<and> \<not> (allow \<and> h > 0)
         then qErrMsg (checkTabletQuorum env txn tbl part allow q tablet)
                = Some (PublishOnTabletFailed (tabletId tablet) h (loadRequiredReplicaNum part)
                          (tableId tbl) (partitionId part) (visibleVersion part + 1))
         else qErrMsg (checkTabletQuorum env txn tbl part allow q tablet) = qErrMsg q)"
  by (simp add: checkTabletQuorum_def spec_errs_after_def spec_tablet_health_def Let_def)

lemma verdictAfter_Nil: "verdictAfter allow r [] = r"
  by (cases r) (simp_all add: verdictAfter_def)

lemma verdictAfter_Cons:
  "verdictAfter allow r ((h, req) # hs)
     = verdictAfter allow
         (if h \<ge> req then r
          else if allow \<and> h > 0 then (if r = QUORUM_SUCC then TIMEOUT_SUCC else r)
          else FAILED) hs"
  by (cases r) (auto simp: verdictAfter_def)

lemma verdictAfter_append:
  "verdictAfter allow r (hs @ hs') = verdictAfter allow (verdictAfter allow r hs) hs'"
  by (cases r) (auto simp: verdictAfter_def)

lemma tablets_quorum_fold:
  "spec_tablets_health env txn tbl part (qErrorReplicaIds q) ts = (hs, errs') \<Longrightarrow>
     qErrorReplicaIds (foldl (checkTabletQuorum env txn tbl part allow) q ts) = errs'
     \<and> publishResult (foldl (checkTabletQuorum env txn tbl part allow) q ts)
         = verdictAfter allow (publishResult q) hs"
proof (induction ts arbitrary: q hs errs')
  case Nil
  then show ?case by (simp add: verdictAfter_Nil)
next
  case (Cons tablet ts)
  let ?q1 = "checkTabletQuorum env txn tbl part allow q tablet"
  obtain hs1 e1 where r: "spec_tablets_health env txn tbl part (qErrorReplicaIds ?q1) ts = (hs1, e1)"
    by (cases "spec_tablets_health env txn tbl part (qErrorReplicaIds ?q1) ts")
  have step: "qErrorReplicaIds ?q1 = spec_errs_after env txn tbl part (qErrorReplicaIds q) tablet"
    using checkTabletQuorum_step [of env txn tbl part allow q tablet] by simp
  have res: "publishResult ?q1
     = (let h = spec_tablet_health env txn tbl part (qErrorReplicaIds q) tablet
        in if h \<ge> loadRequiredReplicaNum part then publishResult q
           else if allow \<and> h > 0
             then (if publishResult q = QUORUM_SUCC then TIMEOUT_SUCC else publishResult q)
           else FAILED)"
    using checkTabletQuorum_step [of env txn tbl part allow q tablet] by simp
  from Cons.prems r step
  have hs: "hs = (spec_tablet_health env txn tbl part (qErrorReplicaIds q) tablet,
                  loadRequiredReplicaNum part) # hs1" and e: "errs' = e1"
    by simp_all
  from Cons.IH [OF r] have ih:
    "qErrorReplicaIds (foldl (checkTabletQuorum env txn tbl part allow) ?q1 ts) = e1
     \<and> publishResult (foldl (checkTabletQuorum env txn tbl part allow) ?q1 ts)
         = verdictAfter allow (publishResult ?q1) hs1" .
  show ?case
    using ih by (simp add: hs e verdictAfter_Cons res Let_def)
qed

lemma tablets_quorum_errMsg:
  "spec_tablets_health env txn tbl part (qErrorReplicaIds q) ts = (hs, errs') \<Longrightarrow>
     (if list_ex (\<lambda>(h, req). h < req \<and> \<not> (allow \<and> h > 0)) hs
      then \<exists>t h req tb p v.
             qErrMsg (foldl (checkTabletQuorum env txn tbl part allow) q ts)
               = Some (PublishOnTabletFailed t h req tb p v)
      else qErrMsg (foldl (checkTabletQuorum env txn tbl part allow) q ts) = qErrMsg q)"
proof (induction ts arbitrary: hs errs' rule: rev_induct)
  case Nil
  then show ?case by simp
next
  case (snoc tablet ts)
  let ?q0 = "foldl (checkTabletQuorum env txn tbl part allow) q ts"
  obtain hs0 e0 where r0: "spec_tablets_health env txn tbl part (qErrorReplicaIds q) ts = (hs0, e0)"
    by (cases "spec_tablets_health env txn tbl part (qErrorReplicaIds q) ts")
  have app: "\<And>errs xs ys hx ex.
      spec_tablets_health env txn tbl part errs xs = (hx, ex) \<Longrightarrow>
      spec_tablets_health env txn tbl part errs (xs @ ys)
        = (hx @ fst (spec_tablets_health env txn tbl part ex ys),
           snd (spec_tablets_health env txn tbl part ex ys))"
  proof -
    fix errs xs ys hx ex
    show "spec_tablets_health env txn tbl part errs xs = (hx, ex) \<Longrightarrow>
      spec_tablets_health env txn tbl part errs (xs @ ys)
        = (hx @ fst (spec_tablets_health env txn tbl part ex ys),
           snd (spec_tablets_health env txn tbl part ex ys))"
      by (induction xs arbitrary: errs hx ex) (auto split: prod.splits)
  qed
  have e0: "qErrorReplicaIds ?q0 = e0"
    using tablets_quorum_fold [OF r0, of allow] by simp
  have hs: "hs = hs0 @ [(spec_tablet_health env txn tbl part e0 tablet, loadRequiredReplicaNum part)]"
    using app [OF r0, of "[tablet]"] snoc.prems by (simp split: prod.splits)
  have ih: "(if list_ex (\<lambda>(h, req). h < req \<and> \<not> (allow \<and> h > 0)) hs0
      then \<exists>t h req tb p v. qErrMsg ?q0 = Some (PublishOnTabletFailed t h req tb p v)
      else qErrMsg ?q0 = qErrMsg q)"
    using snoc.IH [OF r0] .
  have step:
    "(let h = spec_tablet_health env txn tbl part (qErrorReplicaIds ?q0) tablet
      in if h < loadRequiredReplicaNum part \<and> \<not> (allow \<and> h > 0)
         then qErrMsg (checkTabletQuorum env txn tbl part allow ?q0 tablet)
                = Some (PublishOnTabletFailed (tabletId tablet) h (loadRequiredReplicaNum part)
                          (tableId tbl) (partitionId part) (visibleVersion part + 1))
         else qErrMsg (checkTabletQuorum env txn tbl part allow ?q0 tablet) = qErrMsg ?q0)"
    using checkTabletQuorum_step [of env txn tbl part allow ?q0 tablet] by simp
  show ?case
    using ih step by (auto simp: hs e0 Let_def split: if_splits)
qed

lemma partitions_quorum:
  "spec_publish_health env txn (qErrorReplicaIds q) related = Some hs \<Longrightarrow>
     fst (checkPartitionsQuorum env txn allow q related) = None
     \<and> publishResult (snd (checkPartitionsQuorum env txn allow q related))
         = verdictAfter allow (publishResult q) hs
     \<and> (if list_ex (\<lambda>(h, req). h < req \<and> \<not> (allow \<and> h > 0)) hs
        then \<exists>t h req tb p v.
               qErrMsg (snd (checkPartitionsQuorum env txn allow q related))
                 = Some (PublishOnTabletFailed t h req tb p v)
        else qErrMsg (snd (checkPartitionsQuorum env txn allow q related)) = qErrMsg q)"
proof (induction related arbitrary: q hs)
  case Nil
  then show ?case by (simp add: verdictAfter_Nil)
next
  case (Cons a related)
  obtain tbl part where a: "a = (tbl, part)" by (cases a)
  from Cons.prems a obtain allIndices where
    sel: "selectIndices txn (tableId tbl) part = Inr allIndices"
    by (cases "selectIndices txn (tableId tbl) part") auto
  let ?ts = "concat (map tablets allIndices)"
  let ?q1 = "foldl (checkTabletQuorum env txn tbl part allow) q ?ts"
  obtain hs1 e1 where r1: "spec_tablets_health env txn tbl part (qErrorReplicaIds q) ?ts = (hs1, e1)"
    by (cases "spec_tablets_health env txn tbl part (qErrorReplicaIds q) ?ts")
  from Cons.prems a sel r1 obtain hs2 where
    r2: "spec_publish_health env txn e1 related = Some hs2" and hs: "hs = hs1 @ hs2"
    by (cases "spec_publish_health env txn e1 related") auto
  have f1: "qErrorReplicaIds ?q1 = e1"
    and v1: "publishResult ?q1 = verdictAfter allow (publishResult q) hs1"
    using tablets_quorum_fold [OF r1, of allow] by simp_all
  have m1: "(if list_ex (\<lambda>(h, req). h < req \<and> \<not> (allow \<and> h > 0)) hs1
      then \<exists>t h req tb p v. qErrMsg ?q1 = Some (PublishOnTabletFailed t h req tb p v)
      else qErrMsg ?q1 = qErrMsg q)"
    using tablets_quorum_errMsg [OF r1, of allow] .
  have r2': "spec_publish_health env txn (qErrorReplicaIds ?q1) related = Some hs2"
    using r2 f1 by simp
  note ih = Cons.IH [OF r2']
  have unfold: "checkPartitionsQuorum env txn allow q (a # related)
                  = checkPartitionsQuorum env txn allow ?q1 related"
    using a sel by simp
  show ?case
    unfolding unfold
    using ih m1 by (auto simp: hs v1 verdictAfter_append split: if_splits)
qed

lemma partitions_quorum_thrown:
  "spec_publish_health env txn (qErrorReplicaIds q) related = None \<Longrightarrow>
     fst (checkPartitionsQuorum env txn allow q related) \<noteq> None"
proof (induction related arbitrary: q)
  case Nil
  then show ?case by simp
next
  case (Cons a related)
  obtain tbl part where a: "a = (tbl, part)" by (cases a)
  show ?case
  proof (cases "selectIndices txn (tableId tbl) part")
    case (Inl e)
    with a show ?thesis by simp
  next
    case (Inr allIndices)
    let ?ts = "concat (map tablets allIndices)"
    let ?q1 = "foldl (checkTabletQuorum env txn tbl part allow) q ?ts"
    obtain hs1 e1 where
      r1: "spec_tablets_health env txn tbl part (qErrorReplicaIds q) ?ts = (hs1, e1)"
      by (cases "spec_tablets_health env txn tbl part (qErrorReplicaIds q) ?ts")
    have f1: "qErrorReplicaIds ?q1 = e1"
      using tablets_quorum_fold [OF r1, of allow] by simp
    from Cons.prems a Inr r1 have "spec_publish_health env txn e1 related = None"
      by (auto split: option.splits)
    with f1 have "spec_publish_health env txn (qErrorReplicaIds ?q1) related = None" by simp
    from Cons.IH [OF this] show ?thesis using a Inr by simp
  qed
qed

lemma verdictAfter_spec_verdict:
  "verdictAfter allow QUORUM_SUCC hs = spec_verdict allow hs"
proof -
  have a: "list_ex (\<lambda>(h, req). h < req) hs = (\<not> list_all (\<lambda>(succ, required). succ \<ge> required) hs)"
    by (induction hs) auto
  have b: "list_ex (\<lambda>(h, req). h < req \<and> \<not> (allow \<and> h > 0)) hs
             = (\<not> list_all (\<lambda>(succ, required). succ \<ge> required) hs
                \<and> \<not> (allow \<and> list_all (\<lambda>(succ, required). succ < required \<longrightarrow> succ > 0) hs))"
  proof (cases allow)
    case True
    then show ?thesis
      unfolding list_ex_iff list_all_iff by (simp add: case_prod_beta) (metis not_le)
  next
    case False
    then show ?thesis
      unfolding list_ex_iff list_all_iff by (simp add: case_prod_beta) (metis not_le)
  qed
  show ?thesis
    unfolding verdictAfter_def spec_verdict_def a b by auto
qed

text \<open>The method's verdict is the claim's: QUORUM\_SUCC when every tablet has its quorum of
  successful replicas; else TIMEOUT\_SUCC when the wait is over and every tablet under its
  quorum has a successful replica; else FAILED with a "publish on tablet failed" message.
  The method throws only where the traversal itself does (a non-empty
  \<^verbatim>\<open>loadedTblIndexes\<close> without the table).\<close>

lemma finishCheckQuorumReplicas_verdict:
  assumes hs: "spec_publish_health env txn (errorReplicas txn) related = Some hs"
  shows "fst (finishCheckQuorumReplicas env txn related)
           = Returned (spec_verdict (allowPublishOneSucc env txn) hs)
       \<and> transactionStatus (snd (finishCheckQuorumReplicas env txn related))
           = transactionStatus txn
       \<and> transactionId (snd (finishCheckQuorumReplicas env txn related)) = transactionId txn
       \<and> (spec_verdict (allowPublishOneSucc env txn) hs = FAILED \<longrightarrow>
            (\<exists>t h req tb p v. errMsg (snd (finishCheckQuorumReplicas env txn related))
                                = Some (PublishOnTabletFailed t h req tb p v)))"
proof -
  let ?q = "\<lparr>qErrorReplicaIds = errorReplicas txn, publishResult = QUORUM_SUCC,
             qErrMsg = errMsg txn\<rparr>"
  let ?r = "checkPartitionsQuorum env txn (allowPublishOneSucc env txn) ?q related"
  have hs': "spec_publish_health env txn (qErrorReplicaIds ?q) related = Some hs"
    using hs by simp
  note pq = partitions_quorum [OF hs', of "allowPublishOneSucc env txn"]
  obtain ex q' where r: "?r = (ex, q')" by (cases ?r)
  have ex: "ex = None" using pq r by simp
  have v: "publishResult q' = spec_verdict (allowPublishOneSucc env txn) hs"
    using pq r by (simp add: verdictAfter_spec_verdict)
  have failing: "spec_verdict (allowPublishOneSucc env txn) hs = FAILED \<Longrightarrow>
      list_ex (\<lambda>(h, req). h < req \<and> \<not> (allowPublishOneSucc env txn \<and> h > 0)) hs"
  proof -
    assume f: "spec_verdict (allowPublishOneSucc env txn) hs = FAILED"
    show ?thesis
    proof (cases "allowPublishOneSucc env txn")
      case True
      with f obtain h req where "(h, req) \<in> set hs" "h < req" "\<not> 0 < h"
        by (auto simp: spec_verdict_def list_all_iff split: if_splits)
      then show ?thesis unfolding list_ex_iff by (intro bexI [of _ "(h, req)"]) auto
    next
      case False
      with f obtain h req where "(h, req) \<in> set hs" "h < req"
        by (auto simp: spec_verdict_def list_all_iff split: if_splits)
      with False show ?thesis unfolding list_ex_iff by (intro bexI [of _ "(h, req)"]) auto
    qed
  qed
  have m: "spec_verdict (allowPublishOneSucc env txn) hs = FAILED \<Longrightarrow>
      \<exists>t h req tb p v. qErrMsg q' = Some (PublishOnTabletFailed t h req tb p v)"
    using pq r failing by (auto split: if_splits)
  show ?thesis
    using r ex v m by (auto simp: finishCheckQuorumReplicas_def Let_def)
qed

section \<open>The manager's indexes after an upsert\<close>

lemma countRunning_fields [simp]:
  "txnObjects (countRunning s t d) = txnObjects s"
  "idToRunningTransactionState (countRunning s t d) = idToRunningTransactionState s"
  "idToFinalStatusTransactionState (countRunning s t d) = idToFinalStatusTransactionState s"
  "finalStatusTransactionStateDequeShort (countRunning s t d) = finalStatusTransactionStateDequeShort s"
  "finalStatusTransactionStateDequeLong (countRunning s t d) = finalStatusTransactionStateDequeLong s"
  "labelToTxnIds (countRunning s t d) = labelToTxnIds s"
  "idGenerator (countRunning s t d) = idGenerator s"
  "editLog (countRunning s t d) = editLog s"
  by (simp_all add: countRunning_def)

lemma upsert_txnObjects:
  "txnObjects (unprotectUpsertTransactionState s t r) = (txnObjects s)(transactionId t \<mapsto> t)"
  by (simp add: unprotectUpsertTransactionState_def Let_def storeTxn_def updateTxnLabels_def)

lemma upsert_running:
  "set (idToRunningTransactionState (unprotectUpsertTransactionState s t r))
     = (if isFinalStatus (transactionStatus t)
        then set (idToRunningTransactionState s) - {transactionId t}
        else insert (transactionId t) (set (idToRunningTransactionState s)))"
  by (auto simp: unprotectUpsertTransactionState_def Let_def storeTxn_def updateTxnLabels_def)

lemma upsert_final:
  "set (idToFinalStatusTransactionState (unprotectUpsertTransactionState s t r))
     = (if isFinalStatus (transactionStatus t)
        then insert (transactionId t) (set (idToFinalStatusTransactionState s))
        else set (idToFinalStatusTransactionState s))"
  by (auto simp: unprotectUpsertTransactionState_def Let_def storeTxn_def updateTxnLabels_def)

lemma upsert_labels:
  "labelToTxnIds (unprotectUpsertTransactionState s t r)
     = (labelToTxnIds s)(label t \<mapsto>
          List.insert (transactionId t)
            (case labelToTxnIds s (label t) of None \<Rightarrow> [] | Some ids \<Rightarrow> ids))"
  by (simp add: unprotectUpsertTransactionState_def Let_def storeTxn_def updateTxnLabels_def)

lemma upsert_idGenerator:
  "idGenerator (unprotectUpsertTransactionState s t r) = idGenerator s"
  by (simp add: unprotectUpsertTransactionState_def Let_def storeTxn_def updateTxnLabels_def)

lemma get_by_sets:
  "unprotectedGetTransactionState s i
     = (if i \<in> set (idToRunningTransactionState s) \<union> set (idToFinalStatusTransactionState s)
        then txnObjects s i else None)"
  by (auto simp: unprotectedGetTransactionState_def runningGet_def finalGet_def
      split: option.splits)

lemma upsert_get:
  "unprotectedGetTransactionState (unprotectUpsertTransactionState s t r) (transactionId t) = Some t"
  by (simp add: get_by_sets upsert_txnObjects upsert_running upsert_final)

lemma storeTxn_get:
  "unprotectedGetTransactionState s (transactionId t) \<noteq> None \<Longrightarrow>
     unprotectedGetTransactionState (storeTxn s t) (transactionId t) = Some t"
  by (auto simp: get_by_sets storeTxn_def split: if_splits)

section \<open>finishTransaction with a tablet under its quorum\<close>

lemma finishCheckPartitionVersion_fields:
  "finishCheckPartitionVersion txn db = (ok, txn1, related) \<Longrightarrow>
     transactionId txn1 = transactionId txn
     \<and> transactionStatus txn1 = transactionStatus txn
     \<and> firstPublishVersionTime txn1 = firstPublishVersionTime txn"
  by (auto simp: finishCheckPartitionVersion_def split: prod.splits option.splits)

text \<open>
  C2: a COMMITTED transaction is finished, its partitions are all next to publish
  (\<^verbatim>\<open>finishCheckPartitionVersion\<close> returned true), and some tablet visited has fewer
  successful replicas than \<open>loadRequiredReplicaNum\<close> of its partition. If
  \<open>publish_wait_time_second\<close> is positive, a first publish time is recorded and at least
  \<open>publish_wait_time_second\<close> seconds have passed since, and every tablet under its
  quorum has a successful replica, the verdict is TIMEOUT\_SUCC and the transaction is
  VISIBLE afterwards. Otherwise the verdict is FAILED, a "publish on tablet failed" message
  is recorded in the transaction, the transaction is still COMMITTED and the catalog is
  untouched. \<open>hs\<close> is the number of successful replicas and the required number of every
  tablet visited.
\<close>

theorem finishTransaction_under_quorum:
  assumes get: "unprotectedGetTransactionState s txnId = Some txn"
    and tid: "transactionId txn = txnId"
    and committed: "transactionStatus txn = COMMITTED"
    and pv: "finishCheckPartitionVersion txn db = (True, txn1, related)"
    and hs: "spec_publish_health env txn1 (errorReplicas txn1) related = Some hs"
    and under: "list_ex (\<lambda>(succ, required). succ < required) hs"
  shows
    "if publish_wait_time_second env > 0 \<and> firstPublishVersionTime txn > 0
        \<and> currentTimeMillis env - firstPublishVersionTime txn
              \<ge> publish_wait_time_second env * 1000
        \<and> list_all (\<lambda>(succ, required). succ < required \<longrightarrow> succ > 0) hs
     then fst (finishCheckQuorumReplicas env txn1 related) = Returned TIMEOUT_SUCC
        \<and> fst (finishTransaction env (Some db) s txnId) = Returned ()
        \<and> map_option transactionStatus
             (unprotectedGetTransactionState
                (fst (snd (finishTransaction env (Some db) s txnId))) txnId) = Some VISIBLE
     else fst (finishCheckQuorumReplicas env txn1 related) = Returned FAILED
        \<and> finishTransaction env (Some db) s txnId
            = (Returned (), storeTxn s (snd (finishCheckQuorumReplicas env txn1 related)), Some db)
        \<and> (\<exists>t'. unprotectedGetTransactionState
                   (fst (snd (finishTransaction env (Some db) s txnId))) txnId = Some t'
              \<and> transactionStatus t' = COMMITTED
              \<and> (\<exists>t h req tb p v. errMsg t' = Some (PublishOnTabletFailed t h req tb p v)))"
proof -
  note f1 = finishCheckPartitionVersion_fields [OF pv]
  note qv = finishCheckQuorumReplicas_verdict [OF hs]
  obtain out txn2 where q: "finishCheckQuorumReplicas env txn1 related = (out, txn2)"
    by (cases "finishCheckQuorumReplicas env txn1 related")
  have out: "out = Returned (spec_verdict (allowPublishOneSucc env txn1) hs)"
    and st2: "transactionStatus txn2 = COMMITTED" and id2: "transactionId txn2 = txnId"
    using qv q f1 committed tid by simp_all
  have notq: "\<not> list_all (\<lambda>(succ, required). succ \<ge> required) hs"
    using under unfolding list_ex_iff list_all_iff by (simp add: case_prod_beta) (metis not_le)
  have allow: "allowPublishOneSucc env txn1
      = (publish_wait_time_second env > 0 \<and> firstPublishVersionTime txn > 0
         \<and> currentTimeMillis env - firstPublishVersionTime txn
              \<ge> publish_wait_time_second env * 1000)"
    using f1 by (auto simp: allowPublishOneSucc_def)
  show ?thesis
  proof (cases "allowPublishOneSucc env txn1
                 \<and> list_all (\<lambda>(succ, required). succ < required \<longrightarrow> succ > 0) hs")
    case True
    then have v: "spec_verdict (allowPublishOneSucc env txn1) hs = TIMEOUT_SUCC"
      using notq by (simp add: spec_verdict_def)
    let ?t3 = "txn2\<lparr>finishTime := currentTimeMillis env, errMsg := None,
                   transactionStatus := VISIBLE\<rparr>"
    have fin: "finishTransaction env (Some db) s txnId
        = (Returned (), unprotectUpsertTransactionState s ?t3 False,
           Some (updateCatalogAfterVisible env ?t3 db))"
      using get pv q out v by (simp add: finishTransaction_def Let_def)
    have "unprotectedGetTransactionState (unprotectUpsertTransactionState s ?t3 False) txnId
            = Some ?t3"
      using upsert_get [of s ?t3 False] id2 by simp
    then show ?thesis
      using True allow fin q out v by simp
  next
    case False
    then have v: "spec_verdict (allowPublishOneSucc env txn1) hs = FAILED"
      using notq by (auto simp: spec_verdict_def)
    have fin: "finishTransaction env (Some db) s txnId = (Returned (), storeTxn s txn2, Some db)"
      using get pv q out v by (simp add: finishTransaction_def)
    have g2: "unprotectedGetTransactionState (storeTxn s txn2) txnId = Some txn2"
      using storeTxn_get [of s txn2] get id2 by simp
    have msg: "\<exists>t h req tb p v. errMsg txn2 = Some (PublishOnTabletFailed t h req tb p v)"
      using qv q v by simp
    show ?thesis
      using False allow fin q out v g2 st2 msg by auto
  qed
qed

lemmas example_publish_defs =
  txnPublishing_def taskSucc1000_def env0_def publishTaskOf_def selectIndices_def
  checkTabletReplicas_def checkReplicaContinuousVersionSucc_def isAlterReplicaLoadedTxn_def
  spec_tablet_health_def spec_errs_after_def

text \<open>Scenario (c): one of the two replicas of tablet 1000 has published, two are required
  and the wait of 30 s is over: the verdict is TIMEOUT\_SUCC and transaction 7 is VISIBLE.\<close>

theorem finishTransaction_under_quorum_witness:
  "fst (finishCheckQuorumReplicas env0 txnPublishing [(table1, partition10)])
     = Returned TIMEOUT_SUCC
   \<and> fst (finishTransaction env0 (Some db1) (mgrOf [txnPublishing]) 7) = Returned ()
   \<and> map_option transactionStatus
        (unprotectedGetTransactionState
           (fst (snd (finishTransaction env0 (Some db1) (mgrOf [txnPublishing]) 7))) 7)
       = Some VISIBLE"
proof -
  have get: "unprotectedGetTransactionState (mgrOf [txnPublishing]) 7 = Some txnPublishing"
    by (simp add: example_mgr_defs txnPublishing_def txn0_def)
  have tid: "transactionId txnPublishing = 7"
    and committed: "transactionStatus txnPublishing = COMMITTED"
    and first: "firstPublishVersionTime txnPublishing = 1000"
    and errs: "errorReplicas txnPublishing = {}"
    by (simp_all add: txnPublishing_def txn0_def)
  have pv: "finishCheckPartitionVersion txnPublishing db1
              = (True, txnPublishing, [(table1, partition10)])"
    by (simp add: finishCheckPartitionVersion_def txnPublishing_def example_catalog_defs)
  have hs: "spec_publish_health env0 txnPublishing (errorReplicas txnPublishing)
              [(table1, partition10)] = Some [(1, 2)]"
    unfolding errs
    by (simp add: example_publish_defs example_catalog_defs Let_def)
  have under: "list_ex (\<lambda>(succ, required). succ < required) [(1 :: int, 2 :: int)]"
    by simp
  have wait: "publish_wait_time_second env0 = 30" "currentTimeMillis env0 = 100000"
    by (simp_all add: env0_def)
  show ?thesis
    using finishTransaction_under_quorum [OF get tid committed pv hs under, of ]
    by (simp add: wait first)
qed

section \<open>Commit: checkCommitStatus\<close>

lemma checkTabletBackends_found:
  "list_all (\<lambda>be. replicaOf env tid be \<noteq> None) bs \<Longrightarrow>
     \<exists>c'. checkTabletBackends env tid cb bs c = Inr c'
       \<and> int (length (tabletSuccReplicas c'))
           = int (length (tabletSuccReplicas c))
             + int (length (filter (\<lambda>(be, r). spec_commit_class cb be r = Success)
                   (List.map_filter (\<lambda>be. map_option (Pair be) (replicaOf env tid be)) bs)))
       \<and> errorReplicaIds c'
           = errorReplicaIds c
             \<union> {replicaId r | be r.
                  (be, r) \<in> set (List.map_filter
                                  (\<lambda>be. map_option (Pair be) (replicaOf env tid be)) bs)
                  \<and> spec_commit_class cb be r = WriteFailed}"
proof (induction bs arbitrary: c)
  case Nil
  then show ?case by (simp add: map_filter_simps)
next
  case (Cons be bs)
  from Cons.prems obtain r where r: "replicaOf env tid be = Some r" by auto
  from Cons.prems have rest: "list_all (\<lambda>be. replicaOf env tid be \<noteq> None) bs" by simp
  let ?c1 = "(if (case cb of None \<Rightarrow> False | Some xs \<Rightarrow> be \<in> set xs)
             then (if lastFailedVersion r < 0
                   then c\<lparr>tabletSuccReplicas := tabletSuccReplicas c @ [r]\<rparr>
                   else c\<lparr>tabletVersionFailedReplicas := tabletVersionFailedReplicas c @ [r]\<rparr>)
             else c\<lparr>tabletWriteFailedReplicas := tabletWriteFailedReplicas c @ [r],
                    errorReplicaIds := insert (replicaId r) (errorReplicaIds c)\<rparr>)"
  from Cons.IH [OF rest, of ?c1] obtain c' where
    c': "checkTabletBackends env tid cb bs ?c1 = Inr c'"
    and n: "int (length (tabletSuccReplicas c'))
           = int (length (tabletSuccReplicas ?c1))
             + int (length (filter (\<lambda>(be, r). spec_commit_class cb be r = Success)
                   (List.map_filter (\<lambda>be. map_option (Pair be) (replicaOf env tid be)) bs)))"
    and e: "errorReplicaIds c'
           = errorReplicaIds ?c1
             \<union> {replicaId r | be r.
                  (be, r) \<in> set (List.map_filter
                                  (\<lambda>be. map_option (Pair be) (replicaOf env tid be)) bs)
                  \<and> spec_commit_class cb be r = WriteFailed}"
    by blast
  have step: "checkTabletBackends env tid cb (be # bs) c = Inr c'"
    using r c' by simp
  show ?case
  proof (intro exI conjI)
    show "checkTabletBackends env tid cb (be # bs) c = Inr c'" by (rule step)
    show "int (length (tabletSuccReplicas c'))
           = int (length (tabletSuccReplicas c))
             + int (length (filter (\<lambda>(be, r). spec_commit_class cb be r = Success)
                   (List.map_filter (\<lambda>be. map_option (Pair be) (replicaOf env tid be))
                      (be # bs))))"
      using n r by (simp add: map_filter_simps spec_commit_class_def)
    show "errorReplicaIds c'
           = errorReplicaIds c
             \<union> {replicaId r | be' r.
                  (be', r) \<in> set (List.map_filter
                                  (\<lambda>be. map_option (Pair be) (replicaOf env tid be)) (be # bs))
                  \<and> spec_commit_class cb be' r = WriteFailed}"
      unfolding e using r by (auto simp: map_filter_simps spec_commit_class_def split: if_splits)
  qed
qed

lemma checkTabletBackends_missing:
  "\<not> list_all (\<lambda>be. replicaOf env tid be \<noteq> None) bs \<Longrightarrow>
     \<exists>be. checkTabletBackends env tid cb bs c
            = Inl (TransactionCommitFailedException (CouldNotFindReplica tid be))"
proof (induction bs arbitrary: c)
  case Nil
  then show ?case by simp
next
  case (Cons be bs)
  show ?case
  proof (cases "replicaOf env tid be")
    case None
    then show ?thesis by auto
  next
    case (Some r)
    with Cons.prems have "\<not> list_all (\<lambda>be. replicaOf env tid be \<noteq> None) bs" by simp
    from Cons.IH [OF this] show ?thesis using Some by simp
  qed
qed

text \<open>One tablet: the check passes iff the inverted index has a replica for every hosting
  backend and the success replicas are at least the required number; it then adds the ids
  of the write-failed replicas to the error replica ids.\<close>

lemma checkTabletCommit_cases:
  "(if \<not> spec_replicas_found env tablet
    then \<exists>be. checkTabletCommit env required t2b cc tablet
               = Inl (TransactionCommitFailedException (CouldNotFindReplica (tabletId tablet) be))
    else if spec_commit_succ_num env t2b tablet < required
    then checkTabletCommit env required t2b cc tablet
           = Inl (TabletQuorumFailedException (tabletId tablet)
                    (spec_commit_succ_num env t2b tablet) required)
    else \<exists>cc'. checkTabletCommit env required t2b cc tablet = Inr cc'
           \<and> cErrorReplicaIds cc'
               = cErrorReplicaIds cc \<union> spec_write_failed_ids env t2b tablet)"
proof (cases "spec_replicas_found env tablet")
  case False
  then have "\<not> list_all (\<lambda>be. replicaOf env (tabletId tablet) be \<noteq> None) (getBackendIds tablet)"
    by (simp add: spec_replicas_found_def)
  from checkTabletBackends_missing [OF this, of "map_of t2b (tabletId tablet)"
      "\<lparr>errorReplicaIds = cErrorReplicaIds cc, tabletSuccReplicas = [],
        tabletWriteFailedReplicas = [], tabletVersionFailedReplicas = []\<rparr>"]
  obtain be where
    "checkTabletBackends env (tabletId tablet) (map_of t2b (tabletId tablet))
       (getBackendIds tablet)
       \<lparr>errorReplicaIds = cErrorReplicaIds cc, tabletSuccReplicas = [],
        tabletWriteFailedReplicas = [], tabletVersionFailedReplicas = []\<rparr>
     = Inl (TransactionCommitFailedException (CouldNotFindReplica (tabletId tablet) be))"
    by blast
  then show ?thesis
    using False by (simp add: checkTabletCommit_def Let_def)
next
  case True
  then have f: "list_all (\<lambda>be. replicaOf env (tabletId tablet) be \<noteq> None) (getBackendIds tablet)"
    by (simp add: spec_replicas_found_def)
  let ?c0 = "\<lparr>errorReplicaIds = cErrorReplicaIds cc, tabletSuccReplicas = [],
              tabletWriteFailedReplicas = [], tabletVersionFailedReplicas = []\<rparr>"
  from checkTabletBackends_found [OF f, of "map_of t2b (tabletId tablet)" ?c0]
  obtain c' where
    c': "checkTabletBackends env (tabletId tablet) (map_of t2b (tabletId tablet))
           (getBackendIds tablet) ?c0 = Inr c'"
    and n: "int (length (tabletSuccReplicas c')) = spec_commit_succ_num env t2b tablet"
    and e: "errorReplicaIds c' = cErrorReplicaIds cc \<union> spec_write_failed_ids env t2b tablet"
    by (auto simp: spec_commit_succ_num_def spec_write_failed_ids_def spec_hosted_replicas_def)
  show ?thesis
    using True c' n e by (simp add: checkTabletCommit_def Let_def)
qed

lemma checkTabletsCommit_ok:
  "(\<exists>cc'. checkTabletsCommit env required t2b cc ts = Inr cc')
     = (\<forall>t \<in> set ts. spec_replicas_found env t \<and> spec_commit_succ_num env t2b t \<ge> required)"
proof (induction ts arbitrary: cc)
  case Nil
  then show ?case by simp
next
  case (Cons t ts)
  note c = checkTabletCommit_cases [of env t required t2b cc]
  show ?case
  proof (cases "spec_replicas_found env t \<and> spec_commit_succ_num env t2b t \<ge> required")
    case True
    with c obtain cc1 where "checkTabletCommit env required t2b cc t = Inr cc1" by auto
    then show ?thesis using True Cons.IH [of cc1] by simp
  next
    case False
    with c have "\<exists>e. checkTabletCommit env required t2b cc t = Inl e"
      by (auto split: if_splits)
    then show ?thesis using False by auto
  qed
qed

lemma checkTabletsCommit_errs:
  "checkTabletsCommit env required t2b cc ts = Inr cc' \<Longrightarrow>
     cErrorReplicaIds cc' = cErrorReplicaIds cc \<union> (\<Union>t \<in> set ts. spec_write_failed_ids env t2b t)"
proof (induction ts arbitrary: cc)
  case Nil
  then show ?case by simp
next
  case (Cons t ts)
  note c = checkTabletCommit_cases [of env t required t2b cc]
  from Cons.prems obtain cc1 where
    s1: "checkTabletCommit env required t2b cc t = Inr cc1"
    and s2: "checkTabletsCommit env required t2b cc1 ts = Inr cc'"
    by (auto split: sum.splits)
  from c s1 have "cErrorReplicaIds cc1 = cErrorReplicaIds cc \<union> spec_write_failed_ids env t2b t"
    by (auto split: if_splits)
  with Cons.IH [OF s2] show ?case by auto
qed

lemma checkTabletsCommit_quorum:
  "\<forall>t \<in> set ts. spec_replicas_found env t \<Longrightarrow>
   \<exists>t \<in> set ts. spec_commit_succ_num env t2b t < required \<Longrightarrow>
     \<exists>tid n. checkTabletsCommit env required t2b cc ts
               = Inl (TabletQuorumFailedException tid n required) \<and> n < required"
proof (induction ts arbitrary: cc)
  case Nil
  then show ?case by simp
next
  case (Cons t ts)
  note c = checkTabletCommit_cases [of env t required t2b cc]
  from Cons.prems have ft: "spec_replicas_found env t" by simp
  show ?case
  proof (cases "spec_commit_succ_num env t2b t < required")
    case True
    with c ft show ?thesis by auto
  next
    case False
    with c ft obtain cc1 where s1: "checkTabletCommit env required t2b cc t = Inr cc1" by auto
    from Cons.prems False have "\<forall>t \<in> set ts. spec_replicas_found env t"
      and "\<exists>t \<in> set ts. spec_commit_succ_num env t2b t < required" by auto
    from Cons.IH [OF this, of cc1] show ?thesis using s1 by simp
  qed
qed

lemma checkPartitionsCommit_spec:
  "spec_partition_tablets txn tbl pids parts = Some cts \<Longrightarrow>
   (case checkPartitionsCommit env txn tbl pids t2b cc prolonged parts of
      (thrown, cc', prolonged') \<Rightarrow>
        ((thrown = None)
           = (\<forall>(req, t) \<in> set cts. spec_replicas_found env t
                                    \<and> spec_commit_succ_num env t2b t \<ge> req))
      \<and> (thrown = None \<longrightarrow>
            cErrorReplicaIds cc'
              = cErrorReplicaIds cc \<union> (\<Union>(req, t) \<in> set cts. spec_write_failed_ids env t2b t))
      \<and> ((\<forall>(req, t) \<in> set cts. spec_replicas_found env t)
           \<and> (\<exists>(req, t) \<in> set cts. spec_commit_succ_num env t2b t < req) \<longrightarrow>
            (\<exists>tid n req. thrown = Some (TabletQuorumFailedException tid n req) \<and> n < req)))"
proof (induction parts arbitrary: cc prolonged cts)
  case Nil
  then show ?case by simp
next
  case (Cons part parts)
  show ?case
  proof (cases "partitionId part \<in> set pids")
    case False
    with Cons.prems have "spec_partition_tablets txn tbl pids parts = Some cts" by simp
    from Cons.IH [OF this, of cc prolonged] show ?thesis using False by simp
  next
    case True
    with Cons.prems obtain allIndices cts2 where
      sel: "selectIndices txn (tableId tbl) part = Inr allIndices"
      and rest: "spec_partition_tablets txn tbl pids parts = Some cts2"
      and cts: "cts = map (Pair (loadRequiredReplicaNum part)) (concat (map tablets allIndices))
                      @ cts2"
      by (auto split: sum.splits option.splits)
    let ?ts = "concat (map tablets allIndices)"
    let ?req = "loadRequiredReplicaNum part"
    let ?p1 = "(prolonged \<or> tableState tbl = Table_ROLLUP \<or> tableState tbl = Table_SCHEMA_CHANGE)"
    show ?thesis
    proof (cases "checkTabletsCommit env ?req t2b cc ?ts")
      case (Inl e)
      have bad: "\<not> (\<forall>t \<in> set ?ts. spec_replicas_found env t
                                   \<and> spec_commit_succ_num env t2b t \<ge> ?req)"
        using checkTabletsCommit_ok [of env ?req t2b cc ?ts] Inl by simp
      have res: "checkPartitionsCommit env txn tbl pids t2b cc prolonged (part # parts)
                   = (Some e, cc, ?p1)"
        using True sel Inl by (simp add: Let_def)
      have q: "(\<forall>(req, t) \<in> set cts. spec_replicas_found env t) \<Longrightarrow>
               \<exists>tid n req. e = TabletQuorumFailedException tid n req \<and> n < req"
      proof -
        assume all: "\<forall>(req, t) \<in> set cts. spec_replicas_found env t"
        then have f: "\<forall>t \<in> set ?ts. spec_replicas_found env t" unfolding cts by auto
        with bad have "\<exists>t \<in> set ?ts. spec_commit_succ_num env t2b t < ?req"
          by (metis not_le)
        from checkTabletsCommit_quorum [OF f this, of cc] Inl show ?thesis by auto
      qed
      show ?thesis
        unfolding res using bad q by (auto simp: cts)
    next
      case (Inr cc2)
      have good: "\<forall>t \<in> set ?ts. spec_replicas_found env t
                                  \<and> spec_commit_succ_num env t2b t \<ge> ?req"
        using checkTabletsCommit_ok [of env ?req t2b cc ?ts] Inr by simp
      have e2: "cErrorReplicaIds cc2
                  = cErrorReplicaIds cc \<union> (\<Union>t \<in> set ?ts. spec_write_failed_ids env t2b t)"
        using checkTabletsCommit_errs [OF Inr] .
      have res: "checkPartitionsCommit env txn tbl pids t2b cc prolonged (part # parts)
                   = checkPartitionsCommit env txn tbl pids t2b cc2 ?p1 parts"
        using True sel Inr by (simp add: Let_def)
      obtain thrown cc' p' where
        r: "checkPartitionsCommit env txn tbl pids t2b cc2 ?p1 parts = (thrown, cc', p')"
        by (cases "checkPartitionsCommit env txn tbl pids t2b cc2 ?p1 parts")
      note ih = Cons.IH [OF rest, of cc2 ?p1]
      have a: "(thrown = None)
           = (\<forall>(req, t) \<in> set cts2. spec_replicas_found env t
                                     \<and> spec_commit_succ_num env t2b t \<ge> req)"
        and b: "thrown = None \<Longrightarrow>
            cErrorReplicaIds cc'
              = cErrorReplicaIds cc2 \<union> (\<Union>(req, t) \<in> set cts2. spec_write_failed_ids env t2b t)"
        and c: "(\<forall>(req, t) \<in> set cts2. spec_replicas_found env t)
           \<and> (\<exists>(req, t) \<in> set cts2. spec_commit_succ_num env t2b t < req) \<Longrightarrow>
            (\<exists>tid n req. thrown = Some (TabletQuorumFailedException tid n req) \<and> n < req)"
        using ih r by simp_all
      have a': "(thrown = None)
           = (\<forall>(req, t) \<in> set cts. spec_replicas_found env t
                                    \<and> spec_commit_succ_num env t2b t \<ge> req)"
        unfolding a cts using good by auto
      have b': "thrown = None \<Longrightarrow>
            cErrorReplicaIds cc'
              = cErrorReplicaIds cc \<union> (\<Union>(req, t) \<in> set cts. spec_write_failed_ids env t2b t)"
        using b e2 unfolding cts by auto
      have c': "(\<forall>(req, t) \<in> set cts. spec_replicas_found env t)
           \<and> (\<exists>(req, t) \<in> set cts. spec_commit_succ_num env t2b t < req) \<Longrightarrow>
            (\<exists>tid n req. thrown = Some (TabletQuorumFailedException tid n req) \<and> n < req)"
      proof -
        assume h: "(\<forall>(req, t) \<in> set cts. spec_replicas_found env t)
           \<and> (\<exists>(req, t) \<in> set cts. spec_commit_succ_num env t2b t < req)"
        then have "(\<forall>(req, t) \<in> set cts2. spec_replicas_found env t)
           \<and> (\<exists>(req, t) \<in> set cts2. spec_commit_succ_num env t2b t < req)"
          unfolding cts using good by fastforce
        from c [OF this] show ?thesis .
      qed
      show ?thesis
        unfolding res r using a' b' c' by simp
    qed
  qed
qed

lemma checkTablesCommit_spec:
  "spec_checked_tablets db txn t2p = Some cts \<Longrightarrow>
   (case checkTablesCommit env db txn t2b cc prolonged t2p of
      (thrown, cc', prolonged') \<Rightarrow>
        ((thrown = None)
           = (\<forall>(req, t) \<in> set cts. spec_replicas_found env t
                                    \<and> spec_commit_succ_num env t2b t \<ge> req))
      \<and> (thrown = None \<longrightarrow>
            cErrorReplicaIds cc'
              = cErrorReplicaIds cc \<union> (\<Union>(req, t) \<in> set cts. spec_write_failed_ids env t2b t))
      \<and> ((\<forall>(req, t) \<in> set cts. spec_replicas_found env t)
           \<and> (\<exists>(req, t) \<in> set cts. spec_commit_succ_num env t2b t < req) \<longrightarrow>
            (\<exists>tid n req. thrown = Some (TabletQuorumFailedException tid n req) \<and> n < req)))"
proof (induction t2p arbitrary: cc prolonged cts)
  case Nil
  then show ?case by simp
next
  case (Cons a t2p)
  obtain table_id pids where a: "a = (table_id, pids)" by (cases a)
  from Cons.prems a obtain tbl cts1 cts2 where
    tbl: "getTableNullable db table_id = Some tbl"
    and p1: "spec_partition_tablets txn tbl pids (allPartitions tbl) = Some cts1"
    and p2: "spec_checked_tablets db txn t2p = Some cts2"
    and cts: "cts = cts1 @ cts2"
    by (auto split: option.splits)
  obtain th1 cc1 pr1 where
    r1: "checkPartitionsCommit env txn tbl pids t2b cc prolonged (allPartitions tbl)
           = (th1, cc1, pr1)"
    by (cases "checkPartitionsCommit env txn tbl pids t2b cc prolonged (allPartitions tbl)")
  note s1 = checkPartitionsCommit_spec [OF p1, of env t2b cc prolonged]
  have a1: "(th1 = None)
           = (\<forall>(req, t) \<in> set cts1. spec_replicas_found env t
                                     \<and> spec_commit_succ_num env t2b t \<ge> req)"
    and b1: "th1 = None \<Longrightarrow>
            cErrorReplicaIds cc1
              = cErrorReplicaIds cc \<union> (\<Union>(req, t) \<in> set cts1. spec_write_failed_ids env t2b t)"
    and c1: "(\<forall>(req, t) \<in> set cts1. spec_replicas_found env t)
           \<and> (\<exists>(req, t) \<in> set cts1. spec_commit_succ_num env t2b t < req) \<Longrightarrow>
            (\<exists>tid n req. th1 = Some (TabletQuorumFailedException tid n req) \<and> n < req)"
    using s1 r1 by simp_all
  show ?case
  proof (cases th1)
    case (Some e)
    have res: "checkTablesCommit env db txn t2b cc prolonged (a # t2p) = (Some e, cc1, pr1)"
      using a tbl r1 Some by simp
    have bad: "\<not> (\<forall>(req, t) \<in> set cts1. spec_replicas_found env t
                                        \<and> spec_commit_succ_num env t2b t \<ge> req)"
      using a1 Some by simp
    have q: "(\<forall>(req, t) \<in> set cts. spec_replicas_found env t) \<Longrightarrow>
             \<exists>tid n req. e = TabletQuorumFailedException tid n req \<and> n < req"
    proof -
      assume all: "\<forall>(req, t) \<in> set cts. spec_replicas_found env t"
      then have f: "\<forall>(req, t) \<in> set cts1. spec_replicas_found env t" unfolding cts by auto
      with bad have "\<exists>(req, t) \<in> set cts1. spec_commit_succ_num env t2b t < req"
        by (simp add: case_prod_beta) (metis not_le)
      with f c1 Some show ?thesis by auto
    qed
    show ?thesis
      unfolding res using bad q by (auto simp: cts)
  next
    case None
    have good: "\<forall>(req, t) \<in> set cts1. spec_replicas_found env t
                                       \<and> spec_commit_succ_num env t2b t \<ge> req"
      using a1 None by simp
    have res: "checkTablesCommit env db txn t2b cc prolonged (a # t2p)
                 = checkTablesCommit env db txn t2b cc1 pr1 t2p"
      using a tbl r1 None by simp
    obtain thrown cc' p' where
      r: "checkTablesCommit env db txn t2b cc1 pr1 t2p = (thrown, cc', p')"
      by (cases "checkTablesCommit env db txn t2b cc1 pr1 t2p")
    note ih = Cons.IH [OF p2, of cc1 pr1]
    have a2: "(thrown = None)
           = (\<forall>(req, t) \<in> set cts2. spec_replicas_found env t
                                     \<and> spec_commit_succ_num env t2b t \<ge> req)"
      and b2: "thrown = None \<Longrightarrow>
            cErrorReplicaIds cc'
              = cErrorReplicaIds cc1 \<union> (\<Union>(req, t) \<in> set cts2. spec_write_failed_ids env t2b t)"
      and c2: "(\<forall>(req, t) \<in> set cts2. spec_replicas_found env t)
           \<and> (\<exists>(req, t) \<in> set cts2. spec_commit_succ_num env t2b t < req) \<Longrightarrow>
            (\<exists>tid n req. thrown = Some (TabletQuorumFailedException tid n req) \<and> n < req)"
      using ih r by simp_all
    have a': "(thrown = None)
           = (\<forall>(req, t) \<in> set cts. spec_replicas_found env t
                                    \<and> spec_commit_succ_num env t2b t \<ge> req)"
      unfolding a2 cts using good by auto
    have b': "thrown = None \<Longrightarrow>
            cErrorReplicaIds cc'
              = cErrorReplicaIds cc \<union> (\<Union>(req, t) \<in> set cts. spec_write_failed_ids env t2b t)"
      using b2 b1 [OF None] unfolding cts by auto
    have c': "(\<forall>(req, t) \<in> set cts. spec_replicas_found env t)
           \<and> (\<exists>(req, t) \<in> set cts. spec_commit_succ_num env t2b t < req) \<Longrightarrow>
            (\<exists>tid n req. thrown = Some (TabletQuorumFailedException tid n req) \<and> n < req)"
    proof -
      assume h: "(\<forall>(req, t) \<in> set cts. spec_replicas_found env t)
           \<and> (\<exists>(req, t) \<in> set cts. spec_commit_succ_num env t2b t < req)"
      then have "(\<forall>(req, t) \<in> set cts2. spec_replicas_found env t)
           \<and> (\<exists>(req, t) \<in> set cts2. spec_commit_succ_num env t2b t < req)"
        unfolding cts using good by fastforce
      from c2 [OF this] show ?thesis .
    qed
    show ?thesis
      unfolding res r using a' b' c' by simp
  qed
qed

lemma selectIndices_attachment:
  "selectIndices (txn\<lparr>txnCommitAttachment := a\<rparr>) = selectIndices txn"
  by (intro ext) (simp add: selectIndices_def)

lemma spec_partition_tablets_attachment:
  "spec_partition_tablets (txn\<lparr>txnCommitAttachment := a\<rparr>) tbl pids parts
     = spec_partition_tablets txn tbl pids parts"
  by (induction parts) (auto simp: selectIndices_attachment split: sum.splits option.splits)

lemma spec_checked_tablets_attachment:
  "spec_checked_tablets db (txn\<lparr>txnCommitAttachment := a\<rparr>) t2p = spec_checked_tablets db txn t2p"
  by (induction t2p) (auto simp: spec_partition_tablets_attachment split: option.splits)

text \<open>
  C3 (amended): let the reported commit infos give the maps \<open>tableToPartition\<close> and
  \<open>tabletToBackends\<close> (no table of the load is in RESTORE), and let \<open>cts\<close> be the tablets
  the check visits with the replica number their partitions require: for every affected
  partition, the tablets of the materialized indices that the transaction covers (all of
  them if it declared no loaded indexes, else the declared ones that still exist). A replica
  hosted on a backend is a success replica if the backend is among the tablet's commit
  backends and \<open>lastFailedVersion < 0\<close>, version-failed if it is among them with a prior
  failure, write-failed if it is not among them (\<open>spec_commit_class\<close>). Then
  \<^verbatim>\<open>checkCommitStatus\<close> throws nothing iff every visited tablet has a replica for every
  hosting backend and at least the required number of success replicas; it then returns
  exactly the ids of the write-failed replicas as \<open>errorReplicaIds\<close>; and when no replica is
  missing but some visited tablet is under its quorum, it throws
  \<^verbatim>\<open>TabletQuorumFailedException\<close>.
\<close>

theorem checkCommitStatus_spec:
  assumes collect:
      "collectCommitInfos env (tableListById tableList) tabletCommitInfos ([], []) = Inr (t2p, t2b)"
    and visited: "spec_checked_tablets db txn t2p = Some cts"
  shows
    "((csThrown (checkCommitStatus env (Some db) tableList txn tabletCommitInfos attachment) = None)
        = (\<forall>(req, t) \<in> set cts. spec_replicas_found env t
                                 \<and> spec_commit_succ_num env t2b t \<ge> req))
     \<and> (csThrown (checkCommitStatus env (Some db) tableList txn tabletCommitInfos attachment) = None
          \<longrightarrow> csErrorReplicaIds
                (checkCommitStatus env (Some db) tableList txn tabletCommitInfos attachment)
              = (\<Union>(req, t) \<in> set cts. spec_write_failed_ids env t2b t))
     \<and> ((\<forall>(req, t) \<in> set cts. spec_replicas_found env t)
          \<and> (\<exists>(req, t) \<in> set cts. spec_commit_succ_num env t2b t < req)
          \<longrightarrow> (\<exists>tid n req.
                 csThrown (checkCommitStatus env (Some db) tableList txn tabletCommitInfos
                             attachment)
                   = Some (TabletQuorumFailedException tid n req) \<and> n < req))"
proof -
  let ?txn1 = "(case attachment of None \<Rightarrow> txn | Some a \<Rightarrow> txn\<lparr>txnCommitAttachment := Some a\<rparr>)"
  have v1: "spec_checked_tablets db ?txn1 t2p = Some cts"
    using visited by (cases attachment) (simp_all add: spec_checked_tablets_attachment)
  let ?cc0 = "\<lparr>cErrorReplicaIds = {}, cTotalInvolvedBackends = []\<rparr>"
  obtain thrown cc' p' where
    r: "checkTablesCommit env db ?txn1 t2b ?cc0 False t2p = (thrown, cc', p')"
    by (cases "checkTablesCommit env db ?txn1 t2b ?cc0 False t2p")
  note s = checkTablesCommit_spec [OF v1, of env t2b ?cc0 False]
  have cs: "csThrown (checkCommitStatus env (Some db) tableList txn tabletCommitInfos attachment)
              = thrown"
    "csErrorReplicaIds (checkCommitStatus env (Some db) tableList txn tabletCommitInfos attachment)
              = cErrorReplicaIds cc'"
    using collect r by (simp_all add: checkCommitStatus_def Let_def)
  show ?thesis
    unfolding cs using s r by simp
qed

lemmas example_commit_defs =
  envCommit_def env0_def dbCommit_def db0_def table3_def partition30_def tablet3000_def
  tablet3001_def replica0_def txn0_def tableListById_def addToSetMap_def getTableNullable_def
  getPartition_def getIndex_def selectIndices_def getBackendIds_def

text \<open>
  C3 (as stated): every tablet of every materialized index of every affected partition is
  checked. A transaction that declared index 300 as its only loaded index of table 3
  commits with backends 1 and 2 reported for tablet 3000: nothing is thrown and replica 33
  is the only error replica, although tablet 3001 of index 301, in the same partition, has
  no success replica (two are required) and its replicas 34 and 35, on backends that
  reported nothing for it, are not among the error replicas.
\<close>

theorem checkCommitStatus_all_indices_counterexample:
  "csThrown (checkCommitStatus envCommit (Some dbCommit) [table3]
               (txn0\<lparr>loadedTblIndexes := [(3, [300])]\<rparr>) [(3000, 1), (3000, 2)] None) = None
   \<and> csErrorReplicaIds (checkCommitStatus envCommit (Some dbCommit) [table3]
               (txn0\<lparr>loadedTblIndexes := [(3, [300])]\<rparr>) [(3000, 1), (3000, 2)] None) = {33}
   \<and> tablet3001 \<in> set (concat (map tablets (materializedIndices partition30)))
   \<and> spec_commit_succ_num envCommit [(3000, [2, 1])] tablet3001
       < loadRequiredReplicaNum partition30"
  by (simp add: checkCommitStatus_def checkTabletCommit_def example_commit_defs Let_def
      spec_commit_succ_num_def spec_hosted_replicas_def spec_commit_class_def)

text \<open>The spec's scenario (b), with both indices covered: backends 1 and 2 report both
  tablets, backend 3 reports nothing; two replicas are required. The commit check passes
  and the error replicas are replica 33 alone.\<close>

theorem checkCommitStatus_spec_witness:
  "csThrown (checkCommitStatus envCommit (Some dbCommit) [table3] txn0
               [(3000, 1), (3000, 2), (3001, 1), (3001, 2)] None) = None
   \<and> csErrorReplicaIds (checkCommitStatus envCommit (Some dbCommit) [table3] txn0
               [(3000, 1), (3000, 2), (3001, 1), (3001, 2)] None) = {33}"
proof -
  have collect: "collectCommitInfos envCommit (tableListById [table3])
                   [(3000, 1), (3000, 2), (3001, 1), (3001, 2)] ([], [])
                 = Inr ([(3, [30])], [(3000, [2, 1]), (3001, [2, 1])])"
    by (simp add: example_commit_defs)
  have visited: "spec_checked_tablets dbCommit txn0 [(3, [30])]
                   = Some [(2, tablet3000), (2, tablet3001)]"
    by (simp add: example_commit_defs)
  have found: "spec_replicas_found envCommit tablet3000" "spec_replicas_found envCommit tablet3001"
    by (simp_all add: spec_replicas_found_def example_commit_defs)
  have succ: "spec_commit_succ_num envCommit [(3000, [2, 1]), (3001, [2, 1])] tablet3000 = 2"
    "spec_commit_succ_num envCommit [(3000, [2, 1]), (3001, [2, 1])] tablet3001 = 2"
    by (simp_all add: spec_commit_succ_num_def spec_hosted_replicas_def spec_commit_class_def
        example_commit_defs)
  have wf0: "spec_write_failed_ids envCommit [(3000, [2, 1]), (3001, [2, 1])] tablet3000 = {33}"
    apply (auto simp: spec_write_failed_ids_def spec_hosted_replicas_def spec_commit_class_def
        example_commit_defs)
    apply (rule exI [of _ 3])
    apply simp
    done
  have wf1: "spec_write_failed_ids envCommit [(3000, [2, 1]), (3001, [2, 1])] tablet3001 = {}"
    by (auto simp: spec_write_failed_ids_def spec_hosted_replicas_def spec_commit_class_def
        example_commit_defs)
  show ?thesis
    using checkCommitStatus_spec [OF collect visited, of None]
    by (simp add: found succ wf0 wf1)
qed

section \<open>Unused-rowset garbage collection\<close>

lemma filter_filter_absorb:
  "(\<And>x. x \<in> set xs \<Longrightarrow> P x \<Longrightarrow> Q x) \<Longrightarrow> filter P (filter Q xs) = filter P xs"
  by (induction xs) auto

lemma gc_selected_eligible: "gc_selected now s [] a = spec_gc_eligible now s a"
  by (auto simp: gc_selected_def spec_gc_eligible_def split: option.splits)

lemma wf_unused_id:
  "registries_wf s \<Longrightarrow> (k, a) \<in> set (unused_rowsets s) \<Longrightarrow>
     map_option rowset_id (rowset_objects s a) = Some k"
  by (auto simp: registries_wf_def list_all_iff)

lemma wf_querying_id:
  "registries_wf s \<Longrightarrow> (k, a) \<in> set (querying_rowsets s) \<Longrightarrow>
     map_option rowset_id (rowset_objects s a) = Some k"
  by (auto simp: registries_wf_def list_all_iff)

lemma wf_unused_key:
  "registries_wf s \<Longrightarrow> (k, a) \<in> set (unused_rowsets s) \<Longrightarrow> (k, a') \<in> set (unused_rowsets s)
     \<Longrightarrow> a' = a"
  by (auto simp: registries_wf_def dest: eq_key_imp_eq_value)

lemma use_count_unused_ge:
  "(k, a) \<in> set (unused_rowsets s) \<Longrightarrow> (k', a) \<in> set (unused_rowsets s) \<Longrightarrow> k \<noteq> k'
     \<Longrightarrow> 2 \<le> use_count s copy a"
proof -
  assume m1: "(k, a) \<in> set (unused_rowsets s)" and m2: "(k', a) \<in> set (unused_rowsets s)"
    and ne: "k \<noteq> k'"
  let ?f = "filter (\<lambda>e. snd e = a) (unused_rowsets s)"
  have "(k, a) \<in> set ?f" "(k', a) \<in> set ?f" using m1 m2 by auto
  with ne have "{(k, a), (k', a)} \<subseteq> set ?f" "card {(k, a), (k', a)} = 2" by auto
  then have "2 \<le> card (set ?f)" by (metis card_mono List.finite_set)
  also have "\<dots> \<le> length ?f" by (rule card_length)
  finally show ?thesis by (simp add: use_count_def)
qed

lemma use_count_querying_ge:
  "(k, a) \<in> set (unused_rowsets s) \<Longrightarrow> (k', a) \<in> set (querying_rowsets s)
     \<Longrightarrow> 2 \<le> use_count s copy a"
proof -
  assume m1: "(k, a) \<in> set (unused_rowsets s)" and m2: "(k', a) \<in> set (querying_rowsets s)"
  have "(k, a) \<in> set (filter (\<lambda>e. snd e = a) (unused_rowsets s))" using m1 by simp
  then have "0 < length (filter (\<lambda>e. snd e = a) (unused_rowsets s))"
    by (metis length_greater_0_conv empty_iff empty_set)
  moreover
  have "(k', a) \<in> set (filter (\<lambda>e. snd e = a) (querying_rowsets s))" using m2 by simp
  then have "0 < length (filter (\<lambda>e. snd e = a) (querying_rowsets s))"
    by (metis length_greater_0_conv empty_iff empty_set)
  ultimately show ?thesis unfolding use_count_def by linarith
qed

text \<open>One selected entry: what the loop does to the state, and that it changes nothing for
  the entries that are left.\<close>

lemma gc_step:
  assumes wf: "registries_wf s"
    and sel: "gc_selected now s copy a"
    and mem: "(k, a) \<in> set (unused_rowsets s)"
    and obj: "rowset_objects s a = Some rs"
  defines "s1 \<equiv> evict_querying_rowset s (rowset_id rs)"
  defines "s2 \<equiv> s1\<lparr>unused_rowsets := filter (\<lambda>e. fst e \<noteq> k) (unused_rowsets s1)\<rparr>"
  shows "registries_wf s2"
    and "unused_rowsets s2 = filter (\<lambda>e. e \<noteq> (k, a)) (unused_rowsets s)"
    and "rowset_objects s2 = rowset_objects s"
    and "files_removed s2 = files_removed s"
    and "\<And>k' a' n. (k', a') \<in> set (unused_rowsets s2) \<Longrightarrow>
           gc_selected n s2 (if is_local rs then copy @ [a] else copy) a' = gc_selected n s copy a'"
proof -
  have idk: "rowset_id rs = k" using wf_unused_id [OF wf mem] obj by simp
  have uc1: "use_count s copy a = 1" using sel obj by (simp add: gc_selected_def)
  show wf2: "registries_wf s2"
    using wf by (auto simp: registries_wf_def s2_def s1_def evict_querying_rowset_def
        list_all_iff distinct_map_filter)
  have keyk: "\<And>e. e \<in> set (unused_rowsets s) \<Longrightarrow> (fst e \<noteq> k) = (e \<noteq> (k, a))"
    using wf_unused_key [OF wf mem] by (metis fst_conv prod.collapse)
  show u2: "unused_rowsets s2 = filter (\<lambda>e. e \<noteq> (k, a)) (unused_rowsets s)"
    unfolding s2_def s1_def evict_querying_rowset_def
    by (simp cong: filter_cong add: keyk)
  show "rowset_objects s2 = rowset_objects s"
    by (simp add: s2_def s1_def evict_querying_rowset_def)
  show "files_removed s2 = files_removed s"
    by (simp add: s2_def s1_def evict_querying_rowset_def)
  fix k' a' n
  assume m': "(k', a') \<in> set (unused_rowsets s2)"
  then have m: "(k', a') \<in> set (unused_rowsets s)" and kk: "(k', a') \<noteq> (k, a)"
    unfolding u2 by auto
  have k'k: "k' \<noteq> k" using keyk [OF m] kk by simp
  have aa: "a' \<noteq> a"
  proof
    assume "a' = a"
    with m mem k'k have "2 \<le> use_count s copy a"
      using use_count_unused_ge [of k a s k' copy] by auto
    with uc1 show False by simp
  qed
  have id': "map_option rowset_id (rowset_objects s a') = Some k'"
    using wf_unused_id [OF wf m] .
  have c1: "filter (\<lambda>e. snd e = a') (unused_rowsets s2)
              = filter (\<lambda>e. snd e = a') (unused_rowsets s)"
    unfolding u2 using aa by (intro filter_filter_absorb) auto
  have c2: "filter (\<lambda>e. snd e = a') (querying_rowsets s2)
              = filter (\<lambda>e. snd e = a') (querying_rowsets s)"
  proof -
    have "\<And>x. x \<in> set (querying_rowsets s) \<Longrightarrow> snd x = a' \<Longrightarrow> fst x \<noteq> rowset_id rs"
    proof
      fix x assume x: "x \<in> set (querying_rowsets s)" and sx: "snd x = a'"
        and fx: "fst x = rowset_id rs"
      then have "(k, a') \<in> set (querying_rowsets s)" using idk by (metis prod.collapse)
      from wf_querying_id [OF wf this] id' k'k show False by simp
    qed
    then have "filter (\<lambda>e. snd e = a') (filter (\<lambda>e. fst e \<noteq> rowset_id rs) (querying_rowsets s))
                 = filter (\<lambda>e. snd e = a') (querying_rowsets s)"
      by (intro filter_filter_absorb) auto
    then show ?thesis
      unfolding s2_def s1_def evict_querying_rowset_def by (simp del: filter_filter)
  qed
  have c3: "filter (\<lambda>x. x = a') (if is_local rs then copy @ [a] else copy)
              = filter (\<lambda>x. x = a') copy"
    using aa by auto
  have c4: "other_refs s2 = other_refs s"
    by (simp add: s2_def s1_def evict_querying_rowset_def)
  have uc: "use_count s2 (if is_local rs then copy @ [a] else copy) a' = use_count s copy a'"
    unfolding use_count_def c1 c2 c3 c4 ..
  show "gc_selected n s2 (if is_local rs then copy @ [a] else copy) a'
          = gc_selected n s copy a'"
    unfolding gc_selected_def \<open>rowset_objects s2 = rowset_objects s\<close> uc ..
qed

text \<open>The first loop: the entries it erases are the entries of the part of the registry it
  visits that the condition selects in the state it starts from.\<close>

lemma gc_loop_spec:
  "registries_wf s \<Longrightarrow> set todo \<subseteq> set (unused_rowsets s) \<Longrightarrow> distinct (map fst todo) \<Longrightarrow>
   gc_loop now_at s copy todo = (s', copy') \<Longrightarrow>
     registries_wf s' \<and> rowset_objects s' = rowset_objects s
     \<and> files_removed s' = files_removed s
     \<and> merge_on_write_tablets s' = merge_on_write_tablets s
     \<and> unused_rowsets s'
         = filter (\<lambda>e. \<not> (e \<in> set todo \<and> gc_selected (now_at (fst e)) s copy (snd e)))
             (unused_rowsets s)
     \<and> copy' = copy @ map snd (filter (\<lambda>e. gc_selected (now_at (fst e)) s copy (snd e)
                                          \<and> spec_is_local s (snd e)) todo)"
proof (induction todo arbitrary: s copy)
  case Nil
  then show ?case by simp
next
  case (Cons e rest)
  obtain k a where e: "e = (k, a)" by (cases e)
  have mem: "(k, a) \<in> set (unused_rowsets s)" using Cons.prems(2) e by simp
  have sub: "set rest \<subseteq> set (unused_rowsets s)" using Cons.prems(2) by simp
  have dist: "distinct (map fst rest)" using Cons.prems(3) by simp
  have knot: "\<And>x. x \<in> set rest \<Longrightarrow> fst x \<noteq> k" using Cons.prems(3) e by auto
  show ?case
  proof (cases "gc_selected (now_at k) s copy a")
    case False
    then have run: "gc_loop now_at s copy rest = (s', copy')" using Cons.prems(4) e by simp
    note ih = Cons.IH [OF Cons.prems(1) sub dist run]
    have f1: "filter (\<lambda>x. \<not> (x \<in> set (e # rest) \<and> gc_selected (now_at (fst x)) s copy (snd x)))
                (unused_rowsets s)
              = filter (\<lambda>x. \<not> (x \<in> set rest \<and> gc_selected (now_at (fst x)) s copy (snd x)))
                  (unused_rowsets s)"
      using False e by (intro filter_cong) auto
    have f2: "filter (\<lambda>x. gc_selected (now_at (fst x)) s copy (snd x) \<and> spec_is_local s (snd x))
                (e # rest)
              = filter (\<lambda>x. gc_selected (now_at (fst x)) s copy (snd x) \<and> spec_is_local s (snd x))
                  rest"
      using False e by simp
    show ?thesis unfolding f1 f2 using ih by simp
  next
    case True
    then obtain rs where obj: "rowset_objects s a = Some rs"
      by (auto simp: gc_selected_def split: option.splits)
    define s2 where "s2 = (evict_querying_rowset s (rowset_id rs))
        \<lparr>unused_rowsets := filter (\<lambda>e. fst e \<noteq> k)
            (unused_rowsets (evict_querying_rowset s (rowset_id rs)))\<rparr>"
    define copy2 where "copy2 = (if is_local rs then copy @ [a] else copy)"
    note st = gc_step [OF Cons.prems(1) True mem obj, folded s2_def copy2_def]
    have run: "gc_loop now_at s2 copy2 rest = (s', copy')"
      using Cons.prems(4) True obj e by (simp add: s2_def copy2_def Let_def)
    have sub2: "set rest \<subseteq> set (unused_rowsets s2)"
      unfolding st(2) using sub knot by fastforce
    note ih = Cons.IH [OF st(1) sub2 dist run]
    have sel_eq: "\<And>x n. x \<in> set (unused_rowsets s2) \<Longrightarrow>
        gc_selected n s2 copy2 (snd x) = gc_selected n s copy (snd x)"
      using st(5) by (metis prod.collapse)
    have loc_eq: "\<And>x. spec_is_local s2 x = spec_is_local s x"
      by (simp add: spec_is_local_def st(3))
    have "unused_rowsets s'
            = filter (\<lambda>x. \<not> (x \<in> set rest \<and> gc_selected (now_at (fst x)) s2 copy2 (snd x)))
                (unused_rowsets s2)"
      using ih by simp
    also have "\<dots> = filter (\<lambda>x. \<not> (x \<in> set rest \<and> gc_selected (now_at (fst x)) s copy (snd x)))
                (unused_rowsets s2)"
    proof (intro filter_cong refl)
      fix x assume "x \<in> set (unused_rowsets s2)"
      from sel_eq [OF this]
      show "(\<not> (x \<in> set rest \<and> gc_selected (now_at (fst x)) s2 copy2 (snd x)))
            = (\<not> (x \<in> set rest \<and> gc_selected (now_at (fst x)) s copy (snd x)))"
        by simp
    qed
    also have "\<dots> = filter (\<lambda>x. \<not> (x \<in> set (e # rest)
                                     \<and> gc_selected (now_at (fst x)) s copy (snd x)))
                (unused_rowsets s)"
      unfolding st(2) filter_filter using True e by (intro filter_cong) auto
    finally have u: "unused_rowsets s'
            = filter (\<lambda>x. \<not> (x \<in> set (e # rest)
                               \<and> gc_selected (now_at (fst x)) s copy (snd x)))
                (unused_rowsets s)" .
    have "copy' = copy2 @ map snd (filter (\<lambda>x. gc_selected (now_at (fst x)) s2 copy2 (snd x)
                                          \<and> spec_is_local s2 (snd x)) rest)"
      using ih by simp
    also have "filter (\<lambda>x. gc_selected (now_at (fst x)) s2 copy2 (snd x)
                           \<and> spec_is_local s2 (snd x)) rest
               = filter (\<lambda>x. gc_selected (now_at (fst x)) s copy (snd x)
                           \<and> spec_is_local s (snd x)) rest"
    proof (intro filter_cong refl)
      fix x assume "x \<in> set rest"
      then have "x \<in> set (unused_rowsets s2)" using sub2 by auto
      from sel_eq [OF this]
      show "(gc_selected (now_at (fst x)) s2 copy2 (snd x) \<and> spec_is_local s2 (snd x))
            = (gc_selected (now_at (fst x)) s copy (snd x) \<and> spec_is_local s (snd x))"
        by (simp add: loc_eq)
    qed
    finally have c: "copy' = copy @ map snd (filter (\<lambda>x. gc_selected (now_at (fst x)) s copy (snd x)
                                          \<and> spec_is_local s (snd x)) (e # rest))"
      using True e obj by (simp add: copy2_def spec_is_local_def)
    show ?thesis using ih u c st(3) st(4)
      by (simp add: s2_def evict_querying_rowset_def)
  qed
qed

lemma foldl_remove_rowset:
  "unused_rowsets (foldl remove_rowset s xs) = unused_rowsets s
   \<and> rowset_objects (foldl remove_rowset s xs) = rowset_objects s
   \<and> files_removed (foldl remove_rowset s xs)
       = files_removed s @ filter (\<lambda>a. rowset_objects s a \<noteq> None) xs"
proof (induction xs arbitrary: s)
  case Nil
  then show ?case by simp
next
  case (Cons a xs)
  have "unused_rowsets (remove_rowset s a) = unused_rowsets s"
    "rowset_objects (remove_rowset s a) = rowset_objects s"
    "files_removed (remove_rowset s a)
       = files_removed s @ (if rowset_objects s a \<noteq> None then [a] else [])"
    by (auto simp: remove_rowset_def split: option.splits)
  then show ?case using Cons.IH [of "remove_rowset s a"] by simp
qed

text \<open>
  Claim C7. With the registries as the engine builds them (one entry per rowset id, every
  entry filed under the id of the object it refers to), \<^verbatim>\<open>start_delete_unused_rowset\<close>
  erases from the unused-rowset registry exactly the entries that, when the sweep starts,
  have no reference besides the registry's own, are flagged \<open>need_delete_file\<close> and
  have a \<open>delayed_expired_timestamp\<close> strictly before the clock read at the entry; it
  calls \<^verbatim>\<open>remove()\<close> on exactly the local ones among them. A rowset held by the querying
  registry keeps its entry, and the sweep does not remove its files.
\<close>

theorem start_delete_unused_rowset_spec:
  assumes wf: "registries_wf s"
  shows "unused_rowsets (start_delete_unused_rowset now_at s)
           = filter (\<lambda>e. \<not> spec_gc_eligible (now_at (fst e)) s (snd e)) (unused_rowsets s)
         \<and> files_removed (start_delete_unused_rowset now_at s)
             = files_removed s
               @ map snd (filter (\<lambda>e. spec_gc_eligible (now_at (fst e)) s (snd e)
                                      \<and> spec_is_local s (snd e)) (unused_rowsets s))
         \<and> (\<forall>a \<in> snd ` set (querying_rowsets s).
               (\<forall>k. (k, a) \<in> set (unused_rowsets s) \<longrightarrow>
                      (k, a) \<in> set (unused_rowsets (start_delete_unused_rowset now_at s)))
               \<and> (a \<in> set (files_removed (start_delete_unused_rowset now_at s)) \<longrightarrow>
                    a \<in> set (files_removed s)))"
proof -
  obtain s1 cp where run: "gc_loop now_at s [] (unused_rowsets s) = (s1, cp)"
    by (cases "gc_loop now_at s [] (unused_rowsets s)")
  have dist: "distinct (map fst (unused_rowsets s))" using wf by (simp add: registries_wf_def)
  note lp = gc_loop_spec [OF wf subset_refl dist run]
  have res: "start_delete_unused_rowset now_at s = foldl remove_rowset s1 cp"
    by (simp add: start_delete_unused_rowset_def run)
  note fr = foldl_remove_rowset [of s1 cp]
  have u1: "unused_rowsets s1
              = filter (\<lambda>e. \<not> spec_gc_eligible (now_at (fst e)) s (snd e)) (unused_rowsets s)"
    using lp by (simp add: gc_selected_eligible cong: filter_cong)
  have cp: "cp = map snd (filter (\<lambda>e. spec_gc_eligible (now_at (fst e)) s (snd e)
                                      \<and> spec_is_local s (snd e)) (unused_rowsets s))"
    using lp by (simp add: gc_selected_eligible)
  have all_obj: "filter (\<lambda>a. rowset_objects s1 a \<noteq> None) cp = cp"
    unfolding cp using lp by (auto simp: spec_is_local_def filter_id_conv)
  have A: "unused_rowsets (start_delete_unused_rowset now_at s)
             = filter (\<lambda>e. \<not> spec_gc_eligible (now_at (fst e)) s (snd e)) (unused_rowsets s)"
    unfolding res using fr u1 by simp
  have B: "files_removed (start_delete_unused_rowset now_at s)
             = files_removed s
               @ map snd (filter (\<lambda>e. spec_gc_eligible (now_at (fst e)) s (snd e)
                                      \<and> spec_is_local s (snd e)) (unused_rowsets s))"
    unfolding res using fr all_obj lp cp by simp
  have held: "\<And>k a n. (k, a) \<in> set (unused_rowsets s) \<Longrightarrow> a \<in> snd ` set (querying_rowsets s)
                 \<Longrightarrow> \<not> spec_gc_eligible n s a"
  proof
    fix k a n
    assume m: "(k, a) \<in> set (unused_rowsets s)" and q: "a \<in> snd ` set (querying_rowsets s)"
      and el: "spec_gc_eligible n s a"
    from q obtain k' where "(k', a) \<in> set (querying_rowsets s)" by auto
    from use_count_querying_ge [OF m this, of "[]"] el show False
      by (auto simp: spec_gc_eligible_def)
  qed
  have C: "\<forall>a \<in> snd ` set (querying_rowsets s).
               (\<forall>k. (k, a) \<in> set (unused_rowsets s) \<longrightarrow>
                      (k, a) \<in> set (unused_rowsets (start_delete_unused_rowset now_at s)))
               \<and> (a \<in> set (files_removed (start_delete_unused_rowset now_at s)) \<longrightarrow>
                    a \<in> set (files_removed s))"
  proof (intro ballI conjI allI impI)
    fix a k
    assume q: "a \<in> snd ` set (querying_rowsets s)" and m: "(k, a) \<in> set (unused_rowsets s)"
    show "(k, a) \<in> set (unused_rowsets (start_delete_unused_rowset now_at s))"
      unfolding A using held [OF m q] m by simp
  next
    fix a
    assume q: "a \<in> snd ` set (querying_rowsets s)"
      and r: "a \<in> set (files_removed (start_delete_unused_rowset now_at s))"
    show "a \<in> set (files_removed s)"
    proof (rule ccontr)
      assume "a \<notin> set (files_removed s)"
      with r obtain e where "e \<in> set (unused_rowsets s)" "snd e = a"
        "spec_gc_eligible (now_at (fst e)) s (snd e)"
        unfolding B by auto
      then show False using held [of "fst e" a "now_at (fst e)"] q
        by (metis prod.collapse)
    qed
  qed
  show ?thesis using A B C by blast
qed

text \<open>At time 100 both rowsets of the example are expired; rowset 1 is erased and its files
  removed, rowset 2, which a query holds, stays.\<close>

theorem start_delete_unused_rowset_spec_witness:
  "registries_wf gc0
   \<and> unused_rowsets (start_delete_unused_rowset (\<lambda>_. 100) gc0) = [(2, 20)]
   \<and> files_removed (start_delete_unused_rowset (\<lambda>_. 100) gc0) = [10]"
proof -
  have wf: "registries_wf gc0" by (simp add: registries_wf_def gc0_def)
  have e1: "spec_gc_eligible 100 gc0 10" by (simp add: spec_gc_eligible_def use_count_def gc0_def)
  have e2: "\<not> spec_gc_eligible 100 gc0 20"
    by (simp add: spec_gc_eligible_def use_count_def gc0_def)
  have l1: "spec_is_local gc0 10" by (simp add: spec_is_local_def gc0_def)
  have u: "unused_rowsets gc0 = [(1, 10), (2, 20)]" "files_removed gc0 = []"
    by (simp_all add: gc0_def)
  show ?thesis
    using start_delete_unused_rowset_spec [OF wf, where now_at = "\<lambda>_. 100"] wf e1 e2 l1
    by (simp add: u)
qed

section \<open>Trash and snapshot sweeping\<close>

lemma sweep_example_usage:
  "\<not> usage_over_guard sweepConfig0 False dataDir0"
  by code_simp

lemma sweep_example_trash:
  "do_sweep (\<lambda>_. True) mktime_utc
     (Some [''20240101130000.1.10'', ''20240101120000.1.86400'']) 1704117600 86400 = (OK, [])"
  by code_simp

lemma sweep_example_create_time:
  "create_time mktime_utc (str_time_of ''20240101130000.1.10'') = Some 1704114000"
  by code_simp

lemma sweep_example_expire:
  "actual_expire_of ''20240101130000.1.10'' 86400 = Some 10"
  by code_simp

text \<open>When every name has a time stamp and a readable expiry and every deletion succeeds,
  the loop deletes the longest run of expired entries at the front of the sorted names, and
  no entry behind it.\<close>

lemma sweep_loop_prefix:
  "list_all (\<lambda>n. create_time mktime (str_time_of n) \<noteq> None
                   \<and> actual_expire_of n expire \<noteq> None) names
     \<Longrightarrow> snd (sweep_loop (\<lambda>_. True) mktime local_now expire res names)
           = takeWhile (spec_expired mktime local_now expire) names"
proof (induction names arbitrary: res)
  case Nil
  then show ?case by simp
next
  case (Cons n names)
  from Cons.prems obtain created actual_expire
    where c: "create_time mktime (str_time_of n) = Some created"
      and a: "actual_expire_of n expire = Some actual_expire"
      and rest: "list_all (\<lambda>n. create_time mktime (str_time_of n) \<noteq> None
                                \<and> actual_expire_of n expire \<noteq> None) names"
    by auto
  have ih: "snd (sweep_loop (\<lambda>_. True) mktime local_now expire OK names)
              = takeWhile (spec_expired mktime local_now expire) names"
    using Cons.IH [OF rest] .
  have e: "spec_expired mktime local_now expire n = (actual_expire \<le> local_now - created)"
    using c a by (simp add: spec_expired_def)
  show ?case
    using c a ih
    by (cases "sweep_loop (\<lambda>_. True) mktime local_now expire OK names") (simp add: e)
qed

text \<open>
  Claim C8. The sweep of a directory stops at the first entry, in the order of the names,
  that has not expired: an entry after it that has expired is not deleted. Swept at
  14:00:00 in the time zone UTC with the configured expiry of a day, on a disk under the
  guard usage, the trash directory of the example keeps its entry of 13:00:00, whose name
  gives it ten seconds to live and which is an hour old, because the entry of 12:00:00,
  sorted before it, is to live a day.
\<close>

theorem do_sweep_keeps_expired_entry:
  "start_trash_sweep sweepConfig0 False False (\<lambda>_. True) mktime_utc now0 [dataDir0]
     = [(''/data1'', (OK, []), (OK, []))]
   \<and> create_time mktime_utc (str_time_of ''20240101130000.1.10'') = Some (now0 - 3600)
   \<and> actual_expire_of ''20240101130000.1.10'' (trash_file_expire_time_sec sweepConfig0)
       = Some 10"
  using sweep_example_usage sweep_example_trash sweep_example_create_time sweep_example_expire
  by (simp add: start_trash_sweep_def sweep_path_def do_sweep_def now0_def
      dataDir0_def sweepConfig0_def)

section \<open>Label uniqueness\<close>

lemma evolves_refl: "wfStore s \<Longrightarrow> evolves s s"
  by (simp add: evolves_def)

lemma evolves_trans: "evolves s s1 \<Longrightarrow> evolves s1 s2 \<Longrightarrow> evolves s s2"
proof -
  assume a: "evolves s s1" and b: "evolves s1 s2"
  have tr: "trackedIds s2 \<subseteq> trackedIds s" using a b unfolding evolves_def by blast
  have ob: "\<forall>i t'. i \<in> trackedIds s2 \<longrightarrow> txnObjects s2 i = Some t' \<longrightarrow>
            (\<exists>t. txnObjects s i = Some t \<and> label t' = label t
                  \<and> (transactionStatus t = ABORTED \<longrightarrow> transactionStatus t' = ABORTED))"
  proof (intro allI impI)
    fix i t' assume i: "i \<in> trackedIds s2" and o: "txnObjects s2 i = Some t'"
    from b i o obtain t1 where t1: "txnObjects s1 i = Some t1" "label t' = label t1"
      "transactionStatus t1 = ABORTED \<longrightarrow> transactionStatus t' = ABORTED"
      unfolding evolves_def by blast
    have "i \<in> trackedIds s1" using b i unfolding evolves_def by blast
    with a t1(1) obtain t where "txnObjects s i = Some t" "label t1 = label t"
      "transactionStatus t = ABORTED \<longrightarrow> transactionStatus t1 = ABORTED"
      unfolding evolves_def by blast
    with t1 show "\<exists>t. txnObjects s i = Some t \<and> label t' = label t
                  \<and> (transactionStatus t = ABORTED \<longrightarrow> transactionStatus t' = ABORTED)"
      by simp
  qed
  have "wfStore s2" using b unfolding evolves_def by blast
  with tr ob show ?thesis unfolding evolves_def by blast
qed

lemma evolves_wfStore: "evolves s s' \<Longrightarrow> wfStore s'"
  by (simp add: evolves_def)

lemma evolves_labelUnique:
  assumes u: "labelUnique s" and e: "evolves s s'"
  shows "labelUnique s'"
proof -
  have "\<And>l i. i \<in> nonAbortedWithLabel s' l \<Longrightarrow> i \<in> nonAbortedWithLabel s l"
  proof -
    fix l i assume "i \<in> nonAbortedWithLabel s' l"
    then obtain t' where tr: "i \<in> trackedIds s'" and o: "txnObjects s' i = Some t'"
      and l: "label t' = l" and st: "transactionStatus t' \<noteq> ABORTED"
      by (auto simp: nonAbortedWithLabel_def trackedIds_def)
    from e tr o obtain t where "txnObjects s i = Some t" "label t' = label t"
      "transactionStatus t = ABORTED \<longrightarrow> transactionStatus t' = ABORTED"
      unfolding evolves_def by blast
    moreover have "i \<in> trackedIds s" using e tr unfolding evolves_def by blast
    ultimately show "i \<in> nonAbortedWithLabel s l" using l st
      by (auto simp: nonAbortedWithLabel_def trackedIds_def)
  qed
  with u show ?thesis unfolding labelUnique_def by blast
qed

text \<open>A change of the fields that the indexes do not read.\<close>

lemma evolves_same_indexes:
  assumes wf: "wfStore s" and o: "txnObjects s' = txnObjects s"
    and r: "idToRunningTransactionState s' = idToRunningTransactionState s"
    and f: "idToFinalStatusTransactionState s' = idToFinalStatusTransactionState s"
    and l: "labelToTxnIds s' = labelToTxnIds s" and g: "idGenerator s' = idGenerator s"
  shows "evolves s s'"
proof -
  have tr: "trackedIds s' = trackedIds s" by (simp add: trackedIds_def r f)
  have "wfStore s'"
    using wf unfolding wfStore_def keyedById_def idsHandedOut_def labelsIndexed_def
      mapsDisjoint_def finalMapFinal_def tr o r f l g .
  then show ?thesis unfolding evolves_def tr o by simp
qed

text \<open>A setter call on a stored object.\<close>

lemma evolves_storeTxn:
  assumes wf: "wfStore s" and o: "txnObjects s (transactionId t) = Some t"
    and ev: "evolvesTxn t t'"
  shows "evolves s (storeTxn s t')"
proof -
  have id: "transactionId t' = transactionId t" and lb: "label t' = label t"
    using ev by (simp_all add: evolvesTxn_def)
  have k: "keyedById (storeTxn s t')"
    using wf by (auto simp: wfStore_def keyedById_def storeTxn_def)
  have g: "idsHandedOut (storeTxn s t')"
    using wf by (auto simp: wfStore_def idsHandedOut_def storeTxn_def trackedIds_def)
  have l: "labelsIndexed (storeTxn s t')"
    using wf o id lb
    by (auto simp: wfStore_def labelsIndexed_def storeTxn_def trackedIds_def)
  have d: "mapsDisjoint (storeTxn s t')"
    using wf by (auto simp: wfStore_def mapsDisjoint_def storeTxn_def)
  have f: "finalMapFinal (storeTxn s t')"
    using wf o ev
    by (auto simp: wfStore_def finalMapFinal_def storeTxn_def evolvesTxn_def)
  have tr: "trackedIds (storeTxn s t') = trackedIds s"
    by (simp add: trackedIds_def storeTxn_def)
  have ob: "\<forall>i u'. i \<in> trackedIds (storeTxn s t') \<longrightarrow> txnObjects (storeTxn s t') i = Some u' \<longrightarrow>
            (\<exists>u. txnObjects s i = Some u \<and> label u' = label u
                  \<and> (transactionStatus u = ABORTED \<longrightarrow> transactionStatus u' = ABORTED))"
    using o ev by (auto simp: storeTxn_def evolvesTxn_def)
  show ?thesis unfolding evolves_def wfStore_def using k g l d f tr ob by simp
qed

text \<open>An upsert of a transaction that is in the maps.\<close>

lemma evolves_upsert:
  assumes wf: "wfStore s" and o: "txnObjects s (transactionId t) = Some t"
    and tk: "transactionId t \<in> trackedIds s"
    and ev: "evolvesTxn t t'"
  shows "evolves s (unprotectUpsertTransactionState s t' r)"
proof -
  let ?s' = "unprotectUpsertTransactionState s t' r"
  have id: "transactionId t' = transactionId t" and lb: "label t' = label t"
    using ev by (simp_all add: evolvesTxn_def)
  have tr: "trackedIds ?s' = trackedIds s"
    using tk by (auto simp: trackedIds_def upsert_running upsert_final id)
  have k: "keyedById ?s'"
    using wf by (auto simp: wfStore_def keyedById_def upsert_txnObjects)
  have g: "idsHandedOut ?s'"
    using wf unfolding wfStore_def idsHandedOut_def tr upsert_idGenerator by simp
  have l: "labelsIndexed ?s'"
    unfolding labelsIndexed_def tr
  proof (intro ballI allI impI)
    fix i u' assume i: "i \<in> trackedIds s" and u: "txnObjects ?s' i = Some u'"
    show "\<exists>ids. labelToTxnIds ?s' (label u') = Some ids \<and> i \<in> set ids"
    proof (cases "i = transactionId t'")
      case True
      then have "u' = t'" using u by (simp add: upsert_txnObjects)
      then show ?thesis using True by (simp add: upsert_labels)
    next
      case False
      then have "txnObjects s i = Some u'" using u by (simp add: upsert_txnObjects)
      with wf i obtain ids where "labelToTxnIds s (label u') = Some ids" "i \<in> set ids"
        unfolding wfStore_def labelsIndexed_def by blast
      then show ?thesis by (auto simp: upsert_labels)
    qed
  qed
  have d: "mapsDisjoint ?s'"
  proof (cases "isFinalStatus (transactionStatus t')")
    case True
    then show ?thesis
      using wf by (auto simp: wfStore_def mapsDisjoint_def upsert_running upsert_final)
  next
    case False
    then have "\<not> isFinalStatus (transactionStatus t)" using ev by (auto simp: evolvesTxn_def)
    then have "transactionId t \<notin> set (idToFinalStatusTransactionState s)"
      using wf o by (auto simp: wfStore_def finalMapFinal_def)
    then show ?thesis
      using wf False by (auto simp: wfStore_def mapsDisjoint_def upsert_running upsert_final id)
  qed
  have f: "finalMapFinal ?s'"
  proof (cases "isFinalStatus (transactionStatus t')")
    case True
    then show ?thesis
      using wf by (auto simp: wfStore_def finalMapFinal_def upsert_txnObjects upsert_final)
  next
    case False
    then have "\<not> isFinalStatus (transactionStatus t)" using ev by (auto simp: evolvesTxn_def)
    then have "transactionId t \<notin> set (idToFinalStatusTransactionState s)"
      using wf o by (auto simp: wfStore_def finalMapFinal_def)
    then show ?thesis
      using wf False
      by (auto simp: wfStore_def finalMapFinal_def upsert_txnObjects upsert_final id)
  qed
  have ob: "\<forall>i u'. i \<in> trackedIds ?s' \<longrightarrow> txnObjects ?s' i = Some u' \<longrightarrow>
            (\<exists>u. txnObjects s i = Some u \<and> label u' = label u
                  \<and> (transactionStatus u = ABORTED \<longrightarrow> transactionStatus u' = ABORTED))"
    using o ev by (auto simp: upsert_txnObjects evolvesTxn_def)
  show ?thesis unfolding evolves_def wfStore_def using k g l d f tr ob by simp
qed

text \<open>The removal of a final transaction.\<close>

lemma evolves_clearTransactionState:
  assumes wf: "wfStore s"
  shows "evolves s (snd (clearTransactionState s txnId))"
proof (cases "finalGet s txnId")
  case None
  then show ?thesis using wf by (simp add: clearTransactionState_def evolves_refl)
next
  case (Some txn)
  then have fin: "txnId \<in> set (idToFinalStatusTransactionState s)"
    and o: "txnObjects s txnId = Some txn"
    by (auto simp: finalGet_def split: if_splits)
  have nr: "txnId \<notin> set (idToRunningTransactionState s)"
    using wf fin by (auto simp: wfStore_def mapsDisjoint_def)
  have idt: "transactionId txn = txnId" using wf o by (auto simp: wfStore_def keyedById_def)
  define s1 where "s1 = s\<lparr>idToFinalStatusTransactionState :=
                        removeAll txnId (idToFinalStatusTransactionState s)\<rparr>"
  have wf1: "wfStore s1"
    using wf by (auto simp: s1_def wfStore_def keyedById_def idsHandedOut_def labelsIndexed_def
        mapsDisjoint_def finalMapFinal_def trackedIds_def)
  have tr1: "trackedIds s1 = trackedIds s - {txnId}"
    using nr by (auto simp: s1_def trackedIds_def)
  have e1: "evolves s s1"
    unfolding evolves_def using wf1 tr1 by (auto simp: s1_def)
  show ?thesis
  proof (cases "labelToTxnIds s (label txn)")
    case None
    then show ?thesis
      using Some e1 by (simp add: clearTransactionState_def unprotectedGetTxnIdsByLabel_def
          s1_def Let_def)
  next
    case (Some txnIds)
    define s2 where "s2 = s1\<lparr>labelToTxnIds :=
                            (labelToTxnIds s1)(label txn :=
                               (if removeAll txnId txnIds = [] then None
                                else Some (removeAll txnId txnIds)))\<rparr>"
    have res: "snd (clearTransactionState s txnId) = s2"
      using \<open>finalGet s txnId = Some txn\<close> Some idt
      by (simp add: clearTransactionState_def unprotectedGetTxnIdsByLabel_def s1_def s2_def
          Let_def)
    have tr2: "trackedIds s2 = trackedIds s - {txnId}"
      using tr1 by (simp add: s2_def trackedIds_def)
    have l2: "labelsIndexed s2"
      unfolding labelsIndexed_def tr2
    proof (intro ballI allI impI)
      fix i u assume i: "i \<in> trackedIds s - {txnId}" and u: "txnObjects s2 i = Some u"
      then have u0: "txnObjects s i = Some u" by (simp add: s2_def s1_def)
      with wf i obtain ids where ids: "labelToTxnIds s (label u) = Some ids" "i \<in> set ids"
        unfolding wfStore_def labelsIndexed_def by blast
      show "\<exists>ids. labelToTxnIds s2 (label u) = Some ids \<and> i \<in> set ids"
      proof (cases "label u = label txn")
        case True
        then have m: "i \<in> set (removeAll txnId txnIds)" using ids Some i by auto
        then have "removeAll txnId txnIds \<noteq> []" by (metis empty_iff empty_set)
        then show ?thesis using True m by (simp add: s2_def s1_def)
      next
        case False
        then show ?thesis using ids by (simp add: s2_def s1_def)
      qed
    qed
    have wf2: "wfStore s2"
      using wf1 l2 by (auto simp: s2_def wfStore_def keyedById_def idsHandedOut_def
          mapsDisjoint_def finalMapFinal_def trackedIds_def)
    have "evolves s s2"
      unfolding evolves_def using wf2 tr2 by (auto simp: s2_def s1_def)
    then show ?thesis by (simp add: res)
  qed
qed

lemma get_tracked:
  assumes wf: "wfStore s" and g: "unprotectedGetTransactionState s i = Some t"
  shows "txnObjects s (transactionId t) = Some t" "transactionId t \<in> trackedIds s"
    "transactionId t = i"
proof -
  have o: "txnObjects s i = Some t" and tk: "i \<in> trackedIds s"
    using g by (auto simp: get_by_sets trackedIds_def split: if_splits)
  show id: "transactionId t = i" using wf o by (auto simp: wfStore_def keyedById_def)
  show "txnObjects s (transactionId t) = Some t" using o id by simp
  show "transactionId t \<in> trackedIds s" using tk id by simp
qed

lemma runningGet_get:
  "runningGet s i = Some t \<Longrightarrow> unprotectedGetTransactionState s i = Some t"
  by (simp add: unprotectedGetTransactionState_def)

lemma evolvesTxn_refl: "evolvesTxn t t"
  by (simp add: evolvesTxn_def)

lemma evolvesTxn_trans: "evolvesTxn t t1 \<Longrightarrow> evolvesTxn t1 t2 \<Longrightarrow> evolvesTxn t t2"
  by (simp add: evolvesTxn_def)

lemma evolvesTxn_same:
  "transactionId t' = transactionId t \<Longrightarrow> label t' = label t
     \<Longrightarrow> transactionStatus t' = transactionStatus t \<Longrightarrow> evolvesTxn t t'"
  by (simp add: evolvesTxn_def)

lemma finishCheckPartitionVersion_same:
  "finishCheckPartitionVersion txn db = (ok, txn1, related) \<Longrightarrow>
     transactionId txn1 = transactionId txn \<and> label txn1 = label txn
     \<and> transactionStatus txn1 = transactionStatus txn"
  by (auto simp: finishCheckPartitionVersion_def split: prod.splits option.splits)

lemma finishCheckQuorumReplicas_same:
  "finishCheckQuorumReplicas env txn related = (r, txn2) \<Longrightarrow>
     transactionId txn2 = transactionId txn \<and> label txn2 = label txn
     \<and> transactionStatus txn2 = transactionStatus txn"
  by (auto simp: finishCheckQuorumReplicas_def Let_def split: prod.splits option.splits)

lemma checkCommitStatus_same:
  "transactionId (csTxn (checkCommitStatus env dbOpt tableList txn infos attachment))
     = transactionId txn
   \<and> label (csTxn (checkCommitStatus env dbOpt tableList txn infos attachment)) = label txn
   \<and> transactionStatus (csTxn (checkCommitStatus env dbOpt tableList txn infos attachment))
       = transactionStatus txn"
  by (auto simp: checkCommitStatus_def Let_def split: prod.splits option.splits sum.splits)

subsection \<open>abortTransaction\<close>

lemma evolves_unprotectAbortTransaction:
  assumes wf: "wfStore s"
  shows "evolves s (snd (unprotectAbortTransaction env s txnId why))"
proof (cases "unprotectedGetTransactionState s txnId")
  case None
  then show ?thesis using wf by (simp add: unprotectAbortTransaction_def evolves_refl)
next
  case (Some txn)
  note g = get_tracked [OF wf Some]
  have "evolvesTxn txn (txn\<lparr>finishTime := currentTimeMillis env, reason := why,
                            transactionStatus := ABORTED\<rparr>)"
    by (simp add: evolvesTxn_def isFinalStatus_def)
  from evolves_upsert [OF wf g(1) g(2) this]
  show ?thesis using Some wf by (simp add: unprotectAbortTransaction_def evolves_refl)
qed

lemma evolves_clearBackendTransactions:
  "wfStore s \<Longrightarrow> evolves s (clearBackendTransactions env s txnId)"
  by (rule evolves_same_indexes) (simp_all add: clearBackendTransactions_def Let_def)

lemma evolves_abortTransaction:
  assumes wf: "wfStore s"
  shows "evolves s (snd (abortTransaction env s txnId why attachment))"
proof (cases "txnId < 0")
  case True
  then show ?thesis using wf by (simp add: abortTransaction_def evolves_refl)
next
  case nonneg: False
  show ?thesis
  proof (cases "runningGet s txnId")
    case None
    then show ?thesis using wf nonneg by (simp add: abortTransaction_def evolves_refl)
  next
    case (Some txn)
    note g = get_tracked [OF wf runningGet_get [OF Some]]
    define s1 where "s1 = (case attachment of
                            None \<Rightarrow> s
                          | Some a \<Rightarrow> storeTxn s (txn\<lparr>txnCommitAttachment := Some a\<rparr>))"
    have e1: "evolves s s1"
    proof (cases attachment)
      case None
      then show ?thesis using wf by (simp add: s1_def evolves_refl)
    next
      case (Some a)
      have "evolvesTxn txn (txn\<lparr>txnCommitAttachment := Some a\<rparr>)"
        by (simp add: evolvesTxn_def)
      from evolves_storeTxn [OF wf g(1) this] show ?thesis using Some by (simp add: s1_def)
    qed
    obtain r s2 where ua: "unprotectAbortTransaction env s1 txnId why = (r, s2)"
      by (cases "unprotectAbortTransaction env s1 txnId why")
    have e2: "evolves s1 s2"
      using evolves_unprotectAbortTransaction [OF evolves_wfStore [OF e1], of env txnId why] ua
      by simp
    have e12: "evolves s s2" using evolves_trans [OF e1 e2] .
    have e3: "evolves s (clearBackendTransactions env s2 txnId)"
      using evolves_trans [OF e12 evolves_clearBackendTransactions [OF evolves_wfStore [OF e12]]] .
    show ?thesis
      using Some nonneg ua e12 e3
      by (cases r) (simp_all add: abortTransaction_def Let_def s1_def [symmetric])
  qed
qed

subsection \<open>finishTransaction\<close>

lemma evolves_finishTransaction:
  assumes wf: "wfStore s"
    and al: "callAllowed s (FinishTransaction env dbOpt txnId)"
  shows "evolves s (fst (snd (finishTransaction env dbOpt s txnId)))"
proof (cases "unprotectedGetTransactionState s txnId")
  case None
  then show ?thesis using wf by (simp add: finishTransaction_def evolves_refl)
next
  case (Some txn)
  note g = get_tracked [OF wf Some]
  have na: "transactionStatus txn \<noteq> ABORTED" using al Some by simp
  show ?thesis
  proof (cases dbOpt)
    case None
    then show ?thesis using wf Some by (simp add: finishTransaction_def evolves_refl)
  next
    case db: (Some db)
    obtain ok txn1 related where c1: "finishCheckPartitionVersion txn db = (ok, txn1, related)"
      by (cases "finishCheckPartitionVersion txn db")
    note s1 = finishCheckPartitionVersion_same [OF c1]
    have ev1: "evolvesTxn txn txn1" using s1 by (simp add: evolvesTxn_def)
    show ?thesis
    proof (cases ok)
      case False
      then show ?thesis
        using Some db c1 evolves_storeTxn [OF wf g(1) ev1] by (simp add: finishTransaction_def)
    next
      case True
      obtain r txn2 where c2: "finishCheckQuorumReplicas env txn1 related = (r, txn2)"
        by (cases "finishCheckQuorumReplicas env txn1 related")
      note s2 = finishCheckQuorumReplicas_same [OF c2]
      have ev2: "evolvesTxn txn txn2" using s1 s2 by (simp add: evolvesTxn_def)
      have ev3: "evolvesTxn txn (txn2\<lparr>finishTime := currentTimeMillis env, errMsg := None,
                                       transactionStatus := VISIBLE\<rparr>)"
        using s1 s2 na by (simp add: evolvesTxn_def isFinalStatus_def)
      show ?thesis
        using Some db c1 True c2 evolves_storeTxn [OF wf g(1) ev2]
          evolves_upsert [OF wf g(1) g(2) ev3]
        by (cases r) (simp_all add: finishTransaction_def Let_def)
    qed
  qed
qed

subsection \<open>commitTransaction and preCommitTransaction2PC\<close>

lemma storeTxn_object:
  "txnObjects (storeTxn s t) (transactionId t) = Some t"
  "trackedIds (storeTxn s t) = trackedIds s"
  by (simp_all add: storeTxn_def trackedIds_def)

lemma addPublishPlaceholders_evolves: "evolvesTxn t (addPublishPlaceholders t backends)"
  by (simp add: addPublishPlaceholders_def evolvesTxn_def)

lemma evolves_unprotectedCommitTransaction:
  assumes wf: "wfStore s" and o: "txnObjects s (transactionId txn) = Some txn"
    and tk: "transactionId txn \<in> trackedIds s"
  shows "evolves s (snd (unprotectedCommitTransaction env s txn errs ttp backends db))"
proof (cases "transactionStatus txn = PREPARE")
  case False
  then show ?thesis using wf by (simp add: unprotectedCommitTransaction_def evolves_refl)
next
  case True
  define t1 where "t1 = txn\<lparr>commitTime := currentTimeMillis env, transactionStatus := COMMITTED,
                           errorReplicas := errs\<rparr>"
  obtain ex infos where b: "buildTableCommitInfos db (currentTimeMillis env)
                              (idToTableCommitInfos t1) ttp = (ex, infos)"
    by (cases "buildTableCommitInfos db (currentTimeMillis env) (idToTableCommitInfos t1) ttp")
  define t2 where "t2 = t1\<lparr>idToTableCommitInfos := infos\<rparr>"
  have ev: "evolvesTxn txn t2"
    using True by (simp add: t2_def t1_def evolvesTxn_def isFinalStatus_def)
  show ?thesis
  proof (cases ex)
    case (Some e)
    then show ?thesis
      using True b evolves_storeTxn [OF wf o ev]
      by (simp add: unprotectedCommitTransaction_def Let_def t1_def [symmetric]
          t2_def [symmetric])
  next
    case None
    define s1 where "s1 = unprotectUpsertTransactionState s t2 False"
    have e1: "evolves s s1" unfolding s1_def using evolves_upsert [OF wf o tk ev] .
    have o1: "txnObjects s1 (transactionId t2) = Some t2"
      by (simp add: s1_def upsert_txnObjects)
    have e2: "evolves s1 (storeTxn s1 (addPublishPlaceholders t2 backends))"
      using evolves_storeTxn [OF evolves_wfStore [OF e1] o1 addPublishPlaceholders_evolves] .
    show ?thesis
      using True b None evolves_trans [OF e1 e2]
      by (simp add: unprotectedCommitTransaction_def Let_def t1_def [symmetric]
          t2_def [symmetric] s1_def [symmetric])
  qed
qed

lemma evolves_unprotectedPreCommitTransaction2PC:
  assumes wf: "wfStore s" and o: "txnObjects s (transactionId txn) = Some txn"
    and tk: "transactionId txn \<in> trackedIds s"
  shows "evolves s (snd (unprotectedPreCommitTransaction2PC env s txn errs ttp backends db))"
proof (cases "transactionStatus txn = PREPARE")
  case False
  then show ?thesis using wf by (simp add: unprotectedPreCommitTransaction2PC_def evolves_refl)
next
  case True
  define t1 where "t1 = txn\<lparr>preCommitTime := currentTimeMillis env,
                           transactionStatus := PRECOMMITTED, errorReplicas := errs\<rparr>"
  obtain ex infos where b: "buildPreCommitInfos db (idToTableCommitInfos t1) ttp = (ex, infos)"
    by (cases "buildPreCommitInfos db (idToTableCommitInfos t1) ttp")
  define t2 where "t2 = t1\<lparr>idToTableCommitInfos := infos\<rparr>"
  have ev: "evolvesTxn txn t2"
    using True by (simp add: t2_def t1_def evolvesTxn_def isFinalStatus_def)
  show ?thesis
  proof (cases ex)
    case (Some e)
    then show ?thesis
      using True b evolves_storeTxn [OF wf o ev]
      by (simp add: unprotectedPreCommitTransaction2PC_def Let_def t1_def [symmetric]
          t2_def [symmetric])
  next
    case None
    define s1 where "s1 = unprotectUpsertTransactionState s t2 False"
    have e1: "evolves s s1" unfolding s1_def using evolves_upsert [OF wf o tk ev] .
    have o1: "txnObjects s1 (transactionId t2) = Some t2"
      by (simp add: s1_def upsert_txnObjects)
    have e2: "evolves s1 (storeTxn s1 (addPublishPlaceholders t2 backends))"
      using evolves_storeTxn [OF evolves_wfStore [OF e1] o1 addPublishPlaceholders_evolves] .
    show ?thesis
      using True b None evolves_trans [OF e1 e2]
      by (simp add: unprotectedPreCommitTransaction2PC_def Let_def t1_def [symmetric]
          t2_def [symmetric] s1_def [symmetric])
  qed
qed

lemma evolves_unprotectedCommitTransaction2PC:
  assumes wf: "wfStore s" and o: "txnObjects s (transactionId txn) = Some txn"
  shows "evolves s (unprotectedCommitTransaction2PC env s txn db)"
proof (cases "transactionStatus txn = PRECOMMITTED")
  case False
  then show ?thesis using wf by (simp add: unprotectedCommitTransaction2PC_def evolves_refl)
next
  case True
  define t1 where "t1 = txn\<lparr>commitTime := currentTimeMillis env, transactionStatus := COMMITTED,
        idToTableCommitInfos :=
          commit2PCTableInfos db (currentTimeMillis env) (idToTableCommitInfos txn)\<rparr>"
  have ev: "evolvesTxn txn t1"
    using True by (simp add: t1_def evolvesTxn_def isFinalStatus_def)
  have e1: "evolves s (storeTxn s t1)" using evolves_storeTxn [OF wf o ev] .
  have e2: "evolves (storeTxn s t1)
              ((storeTxn s t1)\<lparr>editLog := editLog (storeTxn s t1) @ [LogInsertTransactionState t1]\<rparr>)"
    by (rule evolves_same_indexes [OF evolves_wfStore [OF e1]]) simp_all
  show ?thesis
    using True evolves_trans [OF e1 e2]
    by (simp add: unprotectedCommitTransaction2PC_def Let_def t1_def [symmetric])
qed

lemma evolves_checked:
  assumes wf: "wfStore s" and g: "unprotectedGetTransactionState s txnId = Some txn"
    and cs: "cs = checkCommitStatus env dbOpt tableList txn infos attachment"
  shows "evolves s (storeTxn s (csTxn cs))"
    and "txnObjects (storeTxn s (csTxn cs)) (transactionId (csTxn cs)) = Some (csTxn cs)"
    and "transactionId (csTxn cs) \<in> trackedIds (storeTxn s (csTxn cs))"
proof -
  note t = get_tracked [OF wf g]
  note same = checkCommitStatus_same [of env dbOpt tableList txn infos attachment,
      folded cs]
  have ev: "evolvesTxn txn (csTxn cs)" using same by (simp add: evolvesTxn_def)
  show "evolves s (storeTxn s (csTxn cs))" using evolves_storeTxn [OF wf t(1) ev] .
  show "txnObjects (storeTxn s (csTxn cs)) (transactionId (csTxn cs)) = Some (csTxn cs)"
    by (simp add: storeTxn_object)
  show "transactionId (csTxn cs) \<in> trackedIds (storeTxn s (csTxn cs))"
    using t(2) same by (simp add: storeTxn_object)
qed

lemma evolves_commitTransaction:
  assumes wf: "wfStore s"
  shows "evolves s (fst (snd (commitTransaction env dbOpt s tableList txnId infos attachment
                                is2PC)))"
proof (cases dbOpt)
  case None
  then show ?thesis using wf by (simp add: commitTransaction_def evolves_refl)
next
  case db: (Some db)
  show ?thesis
  proof (cases "unprotectedGetTransactionState s txnId")
    case None
    then show ?thesis using wf db by (simp add: commitTransaction_def evolves_refl)
  next
    case (Some txn)
    note t = get_tracked [OF wf Some]
    define cs where "cs = checkCommitStatus env (Some db) tableList txn infos attachment"
    note ck = evolves_checked [OF wf Some cs_def]
    have e2pc: "evolves s (unprotectedCommitTransaction2PC env s txn db)"
      using evolves_unprotectedCommitTransaction2PC [OF wf t(1)] .
    obtain ex s1 where uc: "unprotectedCommitTransaction env (storeTxn s (csTxn cs)) (csTxn cs)
        (csErrorReplicaIds cs) (csTableToPartition cs) (csTotalInvolvedBackends cs) db = (ex, s1)"
      by (cases "unprotectedCommitTransaction env (storeTxn s (csTxn cs)) (csTxn cs)
        (csErrorReplicaIds cs) (csTableToPartition cs) (csTotalInvolvedBackends cs) db")
    have "evolves (storeTxn s (csTxn cs)) s1"
      using evolves_unprotectedCommitTransaction [OF evolves_wfStore [OF ck(1)] ck(2) ck(3),
          of env "csErrorReplicaIds cs" "csTableToPartition cs" "csTotalInvolvedBackends cs" db]
        uc by simp
    then have e1: "evolves s s1" using evolves_trans [OF ck(1)] by blast
    show ?thesis
      using Some db wf e2pc ck(1) e1 uc
      by (auto simp: commitTransaction_def Let_def cs_def [symmetric] evolves_refl
          split: option.splits)
  qed
qed

lemma evolves_preCommitTransaction2PC:
  assumes wf: "wfStore s"
  shows "evolves s (snd (preCommitTransaction2PC env dbOpt s tableList txnId infos attachment))"
proof (cases dbOpt)
  case None
  then show ?thesis using wf by (simp add: preCommitTransaction2PC_def evolves_refl)
next
  case db: (Some db)
  show ?thesis
  proof (cases "unprotectedGetTransactionState s txnId")
    case None
    then show ?thesis using wf db by (simp add: preCommitTransaction2PC_def evolves_refl)
  next
    case (Some txn)
    define cs where "cs = checkCommitStatus env (Some db) tableList txn infos attachment"
    note ck = evolves_checked [OF wf Some cs_def]
    obtain ex s1 where uc: "unprotectedPreCommitTransaction2PC env (storeTxn s (csTxn cs))
        (csTxn cs) (csErrorReplicaIds cs) (csTableToPartition cs) (csTotalInvolvedBackends cs) db
          = (ex, s1)"
      by (cases "unprotectedPreCommitTransaction2PC env (storeTxn s (csTxn cs))
        (csTxn cs) (csErrorReplicaIds cs) (csTableToPartition cs) (csTotalInvolvedBackends cs) db")
    have "evolves (storeTxn s (csTxn cs)) s1"
      using evolves_unprotectedPreCommitTransaction2PC [OF evolves_wfStore [OF ck(1)] ck(2) ck(3),
          of env "csErrorReplicaIds cs" "csTableToPartition cs" "csTotalInvolvedBackends cs" db]
        uc by simp
    then have e1: "evolves s s1" using evolves_trans [OF ck(1)] by blast
    show ?thesis
      using Some db wf ck(1) e1 uc
      by (auto simp: preCommitTransaction2PC_def Let_def cs_def [symmetric] evolves_refl
          split: option.splits)
  qed
qed

subsection \<open>Expiry and cleanup\<close>

lemma evolves_popExpired:
  "wfStore s \<Longrightarrow> evolves s (fst (snd (popExpired env s deque left n latest)))"
proof (induction deque arbitrary: s n latest)
  case Nil
  then show ?case by (simp add: evolves_refl)
next
  case (Cons txnId rest)
  obtain ex s1 where c: "clearTransactionState s txnId = (ex, s1)"
    by (cases "clearTransactionState s txnId")
  have e1: "evolves s s1" using evolves_clearTransactionState [OF Cons.prems, of txnId] c by simp
  have e2: "evolves s (fst (snd (popExpired env s1 rest left (n + 1) txnId)))"
    using evolves_trans [OF e1 Cons.IH [OF evolves_wfStore [OF e1]]] .
  show ?case using Cons.prems c e1 e2 by (cases ex) (simp_all add: evolves_refl)
qed

lemma evolves_popOverflow:
  "wfStore s \<Longrightarrow> evolves s (fst (snd (popOverflow env s deque left n latest)))"
proof (induction deque arbitrary: s n latest)
  case Nil
  then show ?case by (simp add: evolves_refl)
next
  case (Cons txnId rest)
  obtain ex s1 where c: "clearTransactionState s txnId = (ex, s1)"
    by (cases "clearTransactionState s txnId")
  have e1: "evolves s s1" using evolves_clearTransactionState [OF Cons.prems, of txnId] c by simp
  have e2: "evolves s (fst (snd (popOverflow env s1 rest left (n + 1) txnId)))"
    using evolves_trans [OF e1 Cons.IH [OF evolves_wfStore [OF e1]]] .
  show ?case using Cons.prems c e1 e2 by (cases ex) (simp_all add: evolves_refl)
qed

lemma evolves_unprotectedRemoveUselessTxns:
  assumes wf: "wfStore s"
  shows "evolves s (fst (snd (unprotectedRemoveUselessTxns env s deque left)))"
proof -
  obtain ex s1 deque1 n1 latest1
    where p: "popExpired env s deque left 0 (- 1) = (ex, s1, deque1, n1, latest1)"
    by (cases "popExpired env s deque left 0 (- 1)") auto
  have e1: "evolves s s1" using evolves_popExpired [OF wf, of env deque left 0 "- 1"] p by simp
  have e2: "evolves s (fst (snd (popOverflow env s1 deque1 left n1 latest1)))"
    using evolves_trans [OF e1 evolves_popOverflow [OF evolves_wfStore [OF e1]]] .
  show ?thesis using p e1 e2 by (cases ex) (simp_all add: unprotectedRemoveUselessTxns_def)
qed

lemma evolves_dequeShort:
  "wfStore s \<Longrightarrow> evolves s (s\<lparr>finalStatusTransactionStateDequeShort := d\<rparr>)"
  by (rule evolves_same_indexes) simp_all

lemma evolves_dequeLong:
  "wfStore s \<Longrightarrow> evolves s (s\<lparr>finalStatusTransactionStateDequeLong := d\<rparr>)"
  by (rule evolves_same_indexes) simp_all

lemma evolves_editLog:
  "wfStore s \<Longrightarrow> evolves s (s\<lparr>editLog := d\<rparr>)"
  by (rule evolves_same_indexes) simp_all

lemma evolves_removeUselessTxns:
  assumes wf: "wfStore s"
  shows "evolves s (snd (removeUselessTxns env s))"
proof -
  obtain ex s1 dequeShort nShort latestShort
    where u1: "unprotectedRemoveUselessTxns env s (finalStatusTransactionStateDequeShort s)
                 MAX_REMOVE_TXN_PER_ROUND = (ex, s1, dequeShort, nShort, latestShort)"
    by (cases "unprotectedRemoveUselessTxns env s (finalStatusTransactionStateDequeShort s)
                 MAX_REMOVE_TXN_PER_ROUND") auto
  have e1: "evolves s s1"
    using evolves_unprotectedRemoveUselessTxns [OF wf, of env
        "finalStatusTransactionStateDequeShort s" MAX_REMOVE_TXN_PER_ROUND] u1 by simp
  define s2 where "s2 = s1\<lparr>finalStatusTransactionStateDequeShort := dequeShort\<rparr>"
  have e2: "evolves s s2"
    unfolding s2_def using evolves_trans [OF e1 evolves_dequeShort [OF evolves_wfStore [OF e1]]] .
  show ?thesis
  proof (cases ex)
    case (Some e)
    then show ?thesis using u1 e2 by (simp add: removeUselessTxns_def s2_def)
  next
    case None
    obtain ex' s3 dequeLong nLong latestLong
      where u2: "unprotectedRemoveUselessTxns env s2 (finalStatusTransactionStateDequeLong s2)
                   (MAX_REMOVE_TXN_PER_ROUND - nShort) = (ex', s3, dequeLong, nLong, latestLong)"
      by (cases "unprotectedRemoveUselessTxns env s2 (finalStatusTransactionStateDequeLong s2)
                   (MAX_REMOVE_TXN_PER_ROUND - nShort)") auto
    have "evolves s2 s3"
      using evolves_unprotectedRemoveUselessTxns [OF evolves_wfStore [OF e2], of env
          "finalStatusTransactionStateDequeLong s2" "MAX_REMOVE_TXN_PER_ROUND - nShort"] u2
      by simp
    then have e3: "evolves s s3" using evolves_trans [OF e2] by blast
    define s4 where "s4 = s3\<lparr>finalStatusTransactionStateDequeLong := dequeLong\<rparr>"
    have e4: "evolves s s4"
      unfolding s4_def
      using evolves_trans [OF e3 evolves_dequeLong [OF evolves_wfStore [OF e3]]] .
    have e5: "\<And>d. evolves s (s4\<lparr>editLog := d\<rparr>)"
      using evolves_trans [OF e4 evolves_editLog [OF evolves_wfStore [OF e4]]] .
    have dl: "finalStatusTransactionStateDequeLong s2 = finalStatusTransactionStateDequeLong s1"
      by (simp add: s2_def)
    show ?thesis
      using None u1 u2 [unfolded dl] e4 e5
      by (cases ex') (simp_all add: removeUselessTxns_def Let_def s2_def [symmetric]
          s4_def [symmetric])
  qed
qed

lemma evolves_abort_all:
  "wfStore s \<Longrightarrow>
     evolves s (foldl (\<lambda>s2 txnId. snd (abortTransaction env s2 txnId why None)) s txnIds)"
proof (induction txnIds arbitrary: s)
  case Nil
  then show ?case by (simp add: evolves_refl)
next
  case (Cons txnId rest)
  have e1: "evolves s (snd (abortTransaction env s txnId why None))"
    using evolves_abortTransaction [OF Cons.prems] .
  show ?case using evolves_trans [OF e1 Cons.IH [OF evolves_wfStore [OF e1]]] by simp
qed

lemma evolves_removeExpiredAndTimeoutTxns:
  assumes wf: "wfStore s"
  shows "evolves s (snd (removeExpiredAndTimeoutTxns env s))"
proof -
  obtain ex s1 where r: "removeUselessTxns env s = (ex, s1)"
    by (cases "removeUselessTxns env s")
  have e1: "evolves s s1" using evolves_removeUselessTxns [OF wf, of env] r by simp
  have e2: "evolves s (foldl (\<lambda>s2 txnId. snd (abortTransaction env s2 txnId
                                  ''timeout by txn manager'' None)) s1 (getTimeoutTxns env s1))"
    using evolves_trans [OF e1 evolves_abort_all [OF evolves_wfStore [OF e1]]] .
  show ?thesis using r e1 e2 by (cases ex) (simp_all add: removeExpiredAndTimeoutTxns_def)
qed

subsection \<open>beginTransaction\<close>

lemma notAbortedTxnsOf_all:
  "notAbortedTxnsOf s ids = Inr txns \<Longrightarrow> i \<in> set ids \<Longrightarrow>
     \<exists>t. unprotectedGetTransactionState s i = Some t
          \<and> (transactionStatus t \<noteq> ABORTED \<longrightarrow> t \<in> set txns)"
proof (induction ids arbitrary: txns)
  case Nil
  then show ?case by simp
next
  case (Cons a rest)
  from Cons.prems(1) obtain ta txns' where
    a: "unprotectedGetTransactionState s a = Some ta"
    and r: "notAbortedTxnsOf s rest = Inr txns'"
    and t: "txns = (if transactionStatus ta \<noteq> ABORTED then ta # txns' else txns')"
    by (auto split: option.splits sum.splits)
  show ?case
  proof (cases "i = a")
    case True
    then show ?thesis using a t by auto
  next
    case False
    then have "i \<in> set rest" using Cons.prems(2) by simp
    from Cons.IH [OF r this] show ?thesis using t by auto
  qed
qed

lemma checkLabel_free:
  assumes wf: "wfStore s" and c: "checkLabel s l reqId = None"
  shows "nonAbortedWithLabel s l = {}"
proof (rule ccontr)
  assume "nonAbortedWithLabel s l \<noteq> {}"
  then obtain i t where tk: "i \<in> trackedIds s" and o: "txnObjects s i = Some t"
    and lb: "label t = l" and na: "transactionStatus t \<noteq> ABORTED"
    by (auto simp: nonAbortedWithLabel_def trackedIds_def)
  from wf tk o lb obtain ids where ids: "labelToTxnIds s l = Some ids" "i \<in> set ids"
    unfolding wfStore_def labelsIndexed_def by blast
  then have ne: "ids \<noteq> []" by auto
  from c ids ne obtain txns where n: "notAbortedTxnsOf s ids = Inr txns" and e: "txns = []"
    by (auto simp: checkLabel_def unprotectedGetTxnIdsByLabel_def
        split: sum.splits list.splits if_splits)
  have g: "unprotectedGetTransactionState s i = Some t"
    using tk o by (simp add: get_by_sets trackedIds_def)
  from notAbortedTxnsOf_all [OF n ids(2)] g na e show False by simp
qed

lemma begin_new_txn:
  assumes wf: "wfStore s" and u: "labelUnique s" and free: "nonAbortedWithLabel s l = {}"
    and id: "transactionId t = idGenerator s + 1" and lb: "label t = l"
    and st: "transactionStatus t = PREPARE"
  shows "wfStore (unprotectUpsertTransactionState (s\<lparr>idGenerator := idGenerator s + 1\<rparr>) t r)
         \<and> labelUnique
             (unprotectUpsertTransactionState (s\<lparr>idGenerator := idGenerator s + 1\<rparr>) t r)"
proof -
  let ?s' = "unprotectUpsertTransactionState (s\<lparr>idGenerator := idGenerator s + 1\<rparr>) t r"
  have nf: "\<not> isFinalStatus (transactionStatus t)" using st by (simp add: isFinalStatus_def)
  have fresh: "transactionId t \<notin> trackedIds s"
    using wf id by (auto simp: wfStore_def idsHandedOut_def)
  have obj: "txnObjects ?s' = (txnObjects s)(transactionId t \<mapsto> t)"
    by (simp add: upsert_txnObjects)
  have run: "set (idToRunningTransactionState ?s')
               = insert (transactionId t) (set (idToRunningTransactionState s))"
    using nf by (simp add: upsert_running)
  have fin: "set (idToFinalStatusTransactionState ?s') = set (idToFinalStatusTransactionState s)"
    using nf by (simp add: upsert_final)
  have tr: "trackedIds ?s' = insert (transactionId t) (trackedIds s)"
    by (auto simp: trackedIds_def run fin)
  have gen: "idGenerator ?s' = idGenerator s + 1" by (simp add: upsert_idGenerator)
  have labs: "labelToTxnIds ?s'
     = (labelToTxnIds s)(label t \<mapsto>
          List.insert (transactionId t)
            (case labelToTxnIds s (label t) of None \<Rightarrow> [] | Some ids \<Rightarrow> ids))"
    by (simp add: upsert_labels)
  have k: "keyedById ?s'"
    using wf unfolding wfStore_def keyedById_def obj by auto
  have g: "idsHandedOut ?s'"
    using wf unfolding wfStore_def idsHandedOut_def tr gen id by auto
  have l: "labelsIndexed ?s'"
    unfolding labelsIndexed_def
  proof (intro ballI allI impI)
    fix i u' assume i: "i \<in> trackedIds ?s'" and o: "txnObjects ?s' i = Some u'"
    show "\<exists>ids. labelToTxnIds ?s' (label u') = Some ids \<and> i \<in> set ids"
    proof (cases "i = transactionId t")
      case True
      then have "u' = t" using o unfolding obj by simp
      then show ?thesis unfolding labs using True by simp
    next
      case False
      then have o0: "txnObjects s i = Some u'" and i0: "i \<in> trackedIds s"
        using o i unfolding obj tr by auto
      with wf obtain ids where "labelToTxnIds s (label u') = Some ids" "i \<in> set ids"
        unfolding wfStore_def labelsIndexed_def by blast
      then show ?thesis unfolding labs by auto
    qed
  qed
  have d: "mapsDisjoint ?s'"
    using wf fresh unfolding wfStore_def mapsDisjoint_def run fin trackedIds_def by auto
  have f: "finalMapFinal ?s'"
    using wf fresh unfolding wfStore_def finalMapFinal_def fin obj trackedIds_def by auto
  have sub: "\<And>l' i. i \<in> nonAbortedWithLabel ?s' l' \<Longrightarrow> i \<noteq> transactionId t
                \<Longrightarrow> i \<in> nonAbortedWithLabel s l'"
    unfolding nonAbortedWithLabel_def run fin obj by auto
  have new: "\<And>l'. transactionId t \<in> nonAbortedWithLabel ?s' l' \<Longrightarrow> l' = l"
    unfolding nonAbortedWithLabel_def obj using lb by auto
  have uq: "labelUnique ?s'"
    unfolding labelUnique_def
  proof (intro allI impI)
    fix l' i j
    assume i: "i \<in> nonAbortedWithLabel ?s' l'" and j: "j \<in> nonAbortedWithLabel ?s' l'"
    show "i = j"
    proof (cases "l' = l")
      case True
      have "i = transactionId t" using sub [OF i] free True by auto
      moreover have "j = transactionId t" using sub [OF j] free True by auto
      ultimately show ?thesis by simp
    next
      case False
      then have "i \<noteq> transactionId t" "j \<noteq> transactionId t" using new i j by auto
      then show ?thesis using sub [OF i] sub [OF j] u unfolding labelUnique_def by blast
    qed
  qed
  show ?thesis using k g l d f uq by (simp add: wfStore_def)
qed

lemma evolves_checkDatabaseDataQuota:
  "wfStore s \<Longrightarrow> evolves s (snd (checkDatabaseDataQuota db s))"
  by (rule evolves_same_indexes) (simp_all add: checkDatabaseDataQuota_def Let_def)

lemma invariant_beginTransaction:
  assumes wf: "wfStore s" and u: "labelUnique s"
  shows "wfStore (snd (beginTransaction env dbOpt s tableIds l reqId src timeoutSecond))
         \<and> labelUnique (snd (beginTransaction env dbOpt s tableIds l reqId src timeoutSecond))"
proof (cases dbOpt)
  case None
  then show ?thesis using wf u by (simp add: beginTransaction_def)
next
  case (Some db)
  obtain ex s1 where q: "checkDatabaseDataQuota db s = (ex, s1)"
    by (cases "checkDatabaseDataQuota db s")
  have e1: "evolves s s1" using evolves_checkDatabaseDataQuota [OF wf, of db] q by simp
  have wf1: "wfStore s1" using evolves_wfStore [OF e1] .
  have u1: "labelUnique s1" using evolves_labelUnique [OF u e1] .
  show ?thesis
  proof (cases "checkDatabaseOk env \<and> ex = None \<and> labelFormatOk env l
                \<and> checkLabel s1 l reqId = None \<and> checkRunningTxnExceedLimit db s1 src = None")
    case False
    then show ?thesis
      using Some q wf u wf1 u1 by (auto simp: beginTransaction_def split: option.splits)
  next
    case True
    define txn where "txn = (newTransactionState env tableIds (idGenerator s1 + 1) l reqId src
                               (timeoutSecond * 1000))\<lparr>prepareTime := currentTimeMillis env\<rparr>"
    have res: "snd (beginTransaction env dbOpt s tableIds l reqId src timeoutSecond)
                 = unprotectUpsertTransactionState (s1\<lparr>idGenerator := idGenerator s1 + 1\<rparr>)
                     txn False"
      using Some q True by (simp add: beginTransaction_def Let_def txn_def)
    have free: "nonAbortedWithLabel s1 l = {}" using checkLabel_free [OF wf1] True by blast
    have t: "transactionId txn = idGenerator s1 + 1" "label txn = l"
      "transactionStatus txn = PREPARE"
      by (simp_all add: txn_def newTransactionState_def)
    show ?thesis unfolding res using begin_new_txn [OF wf1 u1 free t] .
  qed
qed

subsection \<open>Sequences of calls\<close>

lemma invariant_perform:
  assumes wf: "wfStore s" and u: "labelUnique s" and al: "callAllowed s call"
  shows "wfStore (perform s call) \<and> labelUnique (perform s call)"
proof (cases call)
  case (BeginTransaction env dbOpt tableIds l reqId src timeoutSecond)
  then show ?thesis using invariant_beginTransaction [OF wf u] by simp
next
  case (PreCommitTransaction2PC env dbOpt tableList txnId infos attachment)
  have "evolves s (perform s call)"
    using evolves_preCommitTransaction2PC [OF wf] PreCommitTransaction2PC by simp
  then show ?thesis using evolves_wfStore evolves_labelUnique [OF u] by blast
next
  case (CommitTransaction env dbOpt tableList txnId infos attachment is2PC)
  have "evolves s (perform s call)"
    using evolves_commitTransaction [OF wf] CommitTransaction by simp
  then show ?thesis using evolves_wfStore evolves_labelUnique [OF u] by blast
next
  case (AbortTransaction env txnId why attachment)
  have "evolves s (perform s call)"
    using evolves_abortTransaction [OF wf] AbortTransaction by simp
  then show ?thesis using evolves_wfStore evolves_labelUnique [OF u] by blast
next
  case (FinishTransaction env dbOpt txnId)
  have "evolves s (perform s call)"
    using evolves_finishTransaction [OF wf] al FinishTransaction by simp
  then show ?thesis using evolves_wfStore evolves_labelUnique [OF u] by blast
next
  case (RemoveExpiredAndTimeoutTxns env)
  have "evolves s (perform s call)"
    using evolves_removeExpiredAndTimeoutTxns [OF wf] RemoveExpiredAndTimeoutTxns by simp
  then show ?thesis using evolves_wfStore evolves_labelUnique [OF u] by blast
qed

lemma invariant_performAll:
  "wfStore s \<Longrightarrow> labelUnique s \<Longrightarrow> callsAllowed s calls \<Longrightarrow>
     wfStore (performAll s calls) \<and> labelUnique (performAll s calls)"
proof (induction calls arbitrary: s)
  case Nil
  then show ?case by (simp add: performAll_def)
next
  case (Cons call calls)
  have "wfStore (perform s call) \<and> labelUnique (perform s call)"
    using invariant_perform [OF Cons.prems(1) Cons.prems(2)] Cons.prems(3) by simp
  then show ?case using Cons.IH [of "perform s call"] Cons.prems(3) by (simp add: performAll_def)
qed

lemma invariant_new:
  "wfStore (newDatabaseTransactionMgr d) \<and> labelUnique (newDatabaseTransactionMgr d)"
  by (simp add: newDatabaseTransactionMgr_def wfStore_def keyedById_def idsHandedOut_def
      labelsIndexed_def mapsDisjoint_def finalMapFinal_def trackedIds_def labelUnique_def
      nonAbortedWithLabel_def)

lemma nonAbortedWithLabel_finite: "finite (nonAbortedWithLabel s l)"
proof -
  have "nonAbortedWithLabel s l \<subseteq> trackedIds s"
    by (auto simp: nonAbortedWithLabel_def trackedIds_def)
  moreover have "finite (trackedIds s)" by (simp add: trackedIds_def)
  ultimately show ?thesis by (rule finite_subset)
qed

lemma labelUnique_card: "labelUnique s \<Longrightarrow> card (nonAbortedWithLabel s l) \<le> 1"
proof -
  assume u: "labelUnique s"
  show ?thesis
  proof (cases "nonAbortedWithLabel s l = {}")
    case True
    then show ?thesis by simp
  next
    case False
    then obtain i where i: "i \<in> nonAbortedWithLabel s l" by blast
    then have "nonAbortedWithLabel s l = {i}" using u unfolding labelUnique_def by blast
    then show ?thesis by simp
  qed
qed

subsection \<open>The two example sequences\<close>




lemma finish_second_allowed:
  "callsAllowed (newDatabaseTransactionMgr 1) callsFinishSecond"
  by code_simp

lemma finish_second_maps:
  "idToRunningTransactionState (performAll (newDatabaseTransactionMgr 1) callsFinishSecond) = []"
  "idToFinalStatusTransactionState (performAll (newDatabaseTransactionMgr 1) callsFinishSecond)
     = [2, 1]"
  by code_simp+

lemma finish_second_objects:
  "map_option (\<lambda>t. (label t, transactionStatus t))
     (txnObjects (performAll (newDatabaseTransactionMgr 1) callsFinishSecond) 1)
     = Some (''L'', ABORTED)"
  "map_option (\<lambda>t. (label t, transactionStatus t))
     (txnObjects (performAll (newDatabaseTransactionMgr 1) callsFinishSecond) 2)
     = Some (''L'', VISIBLE)"
  by code_simp+


text \<open>With the guard that \<^verbatim>\<open>commitTransaction\<close>, \<^verbatim>\<open>preCommitTransaction2PC\<close> and
  \<^verbatim>\<open>abortTransaction\<close> have, that is when no call of \<^verbatim>\<open>finishTransaction\<close> names a
  transaction that is ABORTED when the call is made, at most one transaction of a label is
  not ABORTED in every state that a sequence of calls reaches from a new manager, with any
  arguments and any catalog at each call.\<close>

lemma label_unique_reachable:
  assumes "callsAllowed (newDatabaseTransactionMgr d) calls"
  shows "finite (nonAbortedWithLabel (performAll (newDatabaseTransactionMgr d) calls) l)
         \<and> card (nonAbortedWithLabel (performAll (newDatabaseTransactionMgr d) calls) l) \<le> 1"
proof -
  have "labelUnique (performAll (newDatabaseTransactionMgr d) calls)"
    using invariant_performAll [of "newDatabaseTransactionMgr d" calls] invariant_new [of d]
      assms by blast
  then show ?thesis using labelUnique_card nonAbortedWithLabel_finite by blast
qed

text \<open>The second example sequence is allowed, and after it transaction 2 is the one
  transaction of label \<open>L\<close> that is not ABORTED.\<close>

lemma label_unique_reachable_example:
  "callsAllowed (newDatabaseTransactionMgr 1) callsFinishSecond
   \<and> nonAbortedWithLabel (performAll (newDatabaseTransactionMgr 1) callsFinishSecond) ''L'' = {2}
   \<and> card (nonAbortedWithLabel (performAll (newDatabaseTransactionMgr 1) callsFinishSecond)
             ''L'') \<le> 1"
proof -
  have s: "nonAbortedWithLabel (performAll (newDatabaseTransactionMgr 1) callsFinishSecond) ''L''
             = {2}"
    using finish_second_objects
    unfolding nonAbortedWithLabel_def finish_second_maps by auto
  show ?thesis
    using label_unique_reachable [OF finish_second_allowed, where l = "''L''"]
      finish_second_allowed s
    by simp
qed


end
